theory Spec2Isabelle
  imports Complex_Main "HOL-Library.Sublist" "HOL-Library.Multiset"
begin

section \<open>JavaScript string primitives used by the handlers\<close>

text \<open>
  Strings are \<open>char list\<close>; the model covers ASCII input, so \<open>\s\<close> is the six ASCII
  white-space characters and \<open>\d\<close> is \<open>0\<close>--\<open>9\<close>. Numbers that the source keeps in
  doubles are kept exact (\<open>int\<close> for \<open>parseInt\<close>, \<open>rat\<close> for \<open>parseFloat\<close>).
\<close>

definition isSpace :: "char \<Rightarrow> bool" where
  "isSpace c = (c \<in> set [CHR '' '', CHR 0x09, CHR 0x0A, CHR 0x0B, CHR 0x0C, CHR 0x0D])"

definition isDigit :: "char \<Rightarrow> bool" where
  "isDigit c = (c \<in> set ''0123456789'')"

definition digitVal :: "char \<Rightarrow> nat" where
  "digitVal c = of_char c - 48"

definition hexVal :: "char \<Rightarrow> nat option" where
  "hexVal c =
     (if isDigit c then Some (digitVal c)
      else if c \<in> set ''abcdef'' then Some (of_char c - 87)
      else if c \<in> set ''ABCDEF'' then Some (of_char c - 55)
      else None)"

text \<open>\<open>String.prototype.trim\<close>.\<close>

definition trim :: "string \<Rightarrow> string" where
  "trim s = rev (dropWhile isSpace (rev (dropWhile isSpace s)))"

text \<open>\<open>line.includes(pat)\<close>: \<open>pat\<close> occurs as a contiguous substring.\<close>

fun str_includes :: "string \<Rightarrow> string \<Rightarrow> bool" where
  "str_includes [] pat = (pat = [])"
| "str_includes (c # cs) pat = (prefix pat (c # cs) \<or> str_includes cs pat)"

text \<open>\<open>s.split(d)\<close> for a one-character separator.\<close>

fun split_char :: "char \<Rightarrow> string \<Rightarrow> string list" where
  "split_char d [] = [[]]"
| "split_char d (c # cs) =
     (if c = d then [] # split_char d cs
      else (case split_char d cs of
              p # ps \<Rightarrow> (c # p) # ps
            | [] \<Rightarrow> [[c]]))"

text \<open>
  \<open>s.split(/\s+/)\<close>: the flag says whether the previous character belonged to a
  separator run, so that a run of white space is one separator.
\<close>

fun split_ws_from :: "bool \<Rightarrow> string \<Rightarrow> string list" where
  "split_ws_from b [] = [[]]"
| "split_ws_from b (c # cs) =
     (if isSpace c then (if b then split_ws_from True cs else [] # split_ws_from True cs)
      else (case split_ws_from False cs of
              p # ps \<Rightarrow> (c # p) # ps
            | [] \<Rightarrow> [[c]]))"

definition split_ws :: "string \<Rightarrow> string list" where
  "split_ws s = split_ws_from False s"

text \<open>
  \<open>Number.parseInt(s)\<close> without a radix: leading white space is skipped, a sign is
  read, a \<open>0x\<close> prefix selects base 16, and the longest run of digits is the value.
  \<open>None\<close> is \<open>NaN\<close>.
\<close>

definition parseInt :: "string \<Rightarrow> int option" where
  "parseInt s =
     (let s1 = dropWhile isSpace s;
          neg = (case s1 of c # _ \<Rightarrow> c = CHR ''-'' | [] \<Rightarrow> False);
          s2 = (case s1 of c # r \<Rightarrow> (if c = CHR ''-'' \<or> c = CHR ''+'' then r else s1) | [] \<Rightarrow> s1);
          hex = (prefix ''0x'' s2 \<or> prefix ''0X'' s2);
          s3 = (if hex then drop 2 s2 else s2);
          ds = (if hex then takeWhile (\<lambda>c. hexVal c \<noteq> None) s3 else takeWhile isDigit s3);
          v = foldl (\<lambda>a c. a * (if hex then 16 else 10) + the (hexVal c)) 0 ds
      in if ds = [] then None else Some (if neg then - int v else int v))"

text \<open>Template-literal rendering of an integer, and of \<open>NaN\<close>.\<close>

definition digitChar :: "nat \<Rightarrow> char" where
  "digitChar d = ''0123456789'' ! d"

fun show_nat :: "nat \<Rightarrow> string" where
  "show_nat n = (if n < 10 then [digitChar n] else show_nat (n div 10) @ [digitChar (n mod 10)])"

declare show_nat.simps [simp del]

definition show_int :: "int \<Rightarrow> string" where
  "show_int i = (if i < 0 then CHR ''-'' # show_nat (nat (- i)) else show_nat (nat i))"

definition show_num :: "int option \<Rightarrow> string" where
  "show_num v = (case v of None \<Rightarrow> ''NaN'' | Some i \<Rightarrow> show_int i)"

section \<open>Episode selection (anime handler)\<close>

record episode =
  number :: int
  url :: string

datatype selection_result =
    Invalid (error: string)
  | Valid (isRange: bool) (episodes: "int list") (originalRange: "string option")

text \<open>The \<open>for (let i = start; i <= end; i++)\<close> loop of \<open>parseEpisodeSelection\<close>.\<close>

function collect_range :: "int \<Rightarrow> int \<Rightarrow> int list \<Rightarrow> int list \<Rightarrow> int list" where
  "collect_range i e episodeNumbers requestedEpisodes =
     (if i \<le> e
      then collect_range (i + 1) e episodeNumbers
             (if i \<in> set episodeNumbers then requestedEpisodes @ [i] else requestedEpisodes)
      else requestedEpisodes)"
  by pat_completeness auto
termination
  by (relation "measure (\<lambda>(i, e, _, _). nat (e + 1 - i))") auto

declare collect_range.simps [simp del]

definition parseEpisodeSelection :: "string \<Rightarrow> episode list \<Rightarrow> selection_result" where
  "parseEpisodeSelection selection availableEpisodes =
     (let episodeNumbers = map number availableEpisodes in
      if str_includes selection ''-''
      then
        (let parts = map (\<lambda>num. parseInt (trim num)) (split_char CHR ''-'' selection);
             start = (case parts of a # _ \<Rightarrow> a | [] \<Rightarrow> None);
             end = (case parts of _ # b # _ \<Rightarrow> b | _ \<Rightarrow> None)
         in case (start, end) of
              (Some a, Some b) \<Rightarrow>
                (if a > b then Invalid ''Invalid range format''
                 else
                   (let requestedEpisodes = collect_range a b episodeNumbers [] in
                    if length requestedEpisodes = 0
                    then Invalid (''No episodes found in range '' @ show_int a @ ''-'' @ show_int b)
                    else Valid True requestedEpisodes (Some (show_int a @ ''-'' @ show_int b))))
            | _ \<Rightarrow> Invalid ''Invalid range format'')
      else
        (let episodeNumber = parseInt (trim selection) in
         case episodeNumber of
           None \<Rightarrow> Invalid (''Episode '' @ show_num episodeNumber @ '' not available'')
         | Some n \<Rightarrow>
             (if n \<notin> set episodeNumbers
              then Invalid (''Episode '' @ show_num episodeNumber @ '' not available'')
              else Valid False [n] None)))"

definition mk_episodes :: "int list \<Rightarrow> episode list" where
  "mk_episodes ns = map (\<lambda>n. \<lparr>number = n, url = []\<rparr>) ns"

section \<open>The messaging transport and the external collaborators\<close>

text \<open>
  \<open>sock.sendMessage\<close> and \<open>sock.sendPresenceUpdate\<close> are asynchronous and may throw.
  The world carries a script of outcomes, one per call (\<open>True\<close>: the call throws, and
  nothing is delivered), so a theorem over every script covers every behaviour of the
  transport. A delivered message gets a fresh key. Every call, and every call to a
  collaborator that is not unfolded here, is appended to the trace.

  Message texts are kept symbolic: one constructor per template of the source, carrying
  the values the template interpolates.
\<close>

type_synonym jid = string
type_synonym key = nat

record media_item =
  item_id :: string
  item_title :: string
  item_url :: string
  item_thumbnail :: string
  item_channelTitle :: string

record progress_data =
  progress :: rat
  total_size :: string
  downloaded_size :: string
  speed :: string
  eta :: string
  time_elapsed :: string

datatype msg =
    NoSearchResults
  | InvalidFormat
  | InvalidVideoNumber nat
  | InvalidQuality
  | NoChannelResults
  | InvalidChannelNumber nat
  | GettingLatest "int option" string
  | FailedToGetVideos string string
  | FailedChannelVideos
  | FoundVideos nat
  | LatestFrom nat string
  | ResultCard nat media_item
  | AllLoaded nat
  | ErrorDisplaying
  | DefaultAutoReply
  | FileBrowserCancelled
  | StartingDownload string nat
  | StartingProcessing string nat
  | ProgressText bool "string option" progress_data
  | ProcessingText string progress_data
  | DownloadComplete nat nat int nat
  | Completed nat nat int nat

datatype content =
    Text msg
  | Image string msg
  | Delete key

datatype sock_call =
    SendMessage jid content
  | SendPresenceUpdate string jid

datatype ext_call =
    DownloadAndSendVideo jid media_item string
  | GetChannelLatestVideos string "int option"
  | Delegate string string
  | ConsoleLog string

datatype event =
    Sock sock_call "key option"
  | Ext ext_call

record world =
  outcomes :: "bool list"
  nextKey :: key
  trace :: "event list"

definition sockCall :: "world \<Rightarrow> sock_call \<Rightarrow> world \<times> key option" where
  "sockCall w c =
     (case outcomes w of
        True # os \<Rightarrow> (w\<lparr>outcomes := os, trace := trace w @ [Sock c None]\<rparr>, None)
      | _ \<Rightarrow>
          (w\<lparr>outcomes := tl (outcomes w), nextKey := Suc (nextKey w),
              trace := trace w @ [Sock c (Some (nextKey w))]\<rparr>,
           Some (nextKey w)))"

definition extCall :: "world \<Rightarrow> ext_call \<Rightarrow> world" where
  "extCall w c = w\<lparr>trace := trace w @ [Ext c]\<rparr>"

definition sendMessage :: "world \<Rightarrow> jid \<Rightarrow> content \<Rightarrow> world \<times> key option" where
  "sendMessage w remoteJid c = sockCall w (SendMessage remoteJid c)"

definition sendPresenceUpdate :: "world \<Rightarrow> string \<Rightarrow> jid \<Rightarrow> world \<times> key option" where
  "sendPresenceUpdate w p remoteJid = sockCall w (SendPresenceUpdate p remoteJid)"

text \<open>How an \<open>async\<close> function ends: it returns, or the promise rejects.\<close>

datatype completion = Returned | Thrown

definition completion_of :: "key option \<Rightarrow> completion" where
  "completion_of r = (case r of Some _ \<Rightarrow> Returned | None \<Rightarrow> Thrown)"

text \<open>The collaborators consulted by the handlers: the channel API and the image fetch
  (\<open>downloadImage\<close> catches its own errors and returns \<open>null\<close>, here \<open>None\<close>).\<close>

datatype fetch_result = FetchOk "media_item list" | FetchFailed string

record env =
  getChannelLatestVideos :: "string \<Rightarrow> int option \<Rightarrow> fetch_result"
  downloadImage :: "string \<Rightarrow> string option"

section \<open>Conversation state\<close>

datatype state_name =
    selecting_file
  | confirming_delete
  | video_search_results
  | channel_search_results
  | channel_videos_results
  | anime_selection
  | episode_selection
  | quality_selection
  | automated_anime_confirmation
  | music_search_results
  | waiting_for_cookies
  | other_state string

record user_state =
  state :: state_name
  searchResults :: "media_item list option"
  channelVideos :: "media_item list option"
  selectedChannel :: "media_item option"

type_synonym user_states = "jid \<rightharpoonup> user_state"

section \<open>Acceptance patterns of the message handler\<close>

text \<open>\<open>/^\d+$/\<close>\<close>

definition re_digits :: "string \<Rightarrow> bool" where
  "re_digits s = (s \<noteq> [] \<and> list_all isDigit s)"

text \<open>\<open>/^\d+\s+(480|720|1080)$/\<close>\<close>

definition re_video_reply :: "string \<Rightarrow> bool" where
  "re_video_reply s =
     (let ds = takeWhile isDigit s; r1 = dropWhile isDigit s;
          ws = takeWhile isSpace r1; r2 = dropWhile isSpace r1
      in ds \<noteq> [] \<and> ws \<noteq> [] \<and> r2 \<in> set [''480'', ''720'', ''1080''])"

text \<open>\<open>/^\d+(\s+\d+)?$/\<close>\<close>

definition re_channel_reply :: "string \<Rightarrow> bool" where
  "re_channel_reply s =
     (let ds = takeWhile isDigit s; r1 = dropWhile isDigit s;
          ws = takeWhile isSpace r1; r2 = dropWhile isSpace r1
      in ds \<noteq> [] \<and> (r1 = [] \<or> (ws \<noteq> [] \<and> re_digits r2)))"

text \<open>\<open>/^\d+-\d+$/\<close>\<close>

definition re_range :: "string \<Rightarrow> bool" where
  "re_range s =
     (let ds = takeWhile isDigit s; r1 = dropWhile isDigit s
      in ds \<noteq> [] \<and> (case r1 of c # r2 \<Rightarrow> c = CHR ''-'' \<and> re_digits r2 | [] \<Rightarrow> False))"

definition toLowerCase :: "string \<Rightarrow> string" where
  "toLowerCase s =
     map (\<lambda>c. case map_of (zip ''ABCDEFGHIJKLMNOPQRSTUVWXYZ'' ''abcdefghijklmnopqrstuvwxyz'') c of
                Some l \<Rightarrow> l
              | None \<Rightarrow> c) s"

section \<open>Video and channel selection (youtube handler)\<close>

text \<open>
  \<open>downloadAndSendVideo(sock, remoteJid, video, quality)\<close> is recorded as one call in the
  trace and not unfolded: it is handed the socket, the conversation, the video and the
  quality, and not the conversation-state map.
\<close>

definition handleVideoSelection ::
    "world \<Rightarrow> user_states \<Rightarrow> jid \<Rightarrow> string \<Rightarrow> world \<times> user_states \<times> completion" where
  "handleVideoSelection w userStates remoteJid selection =
     (case userStates remoteJid of
        None \<Rightarrow>
          (let (w1, r) = sendMessage w remoteJid (Text NoSearchResults)
           in (w1, userStates, completion_of r))
      | Some userState \<Rightarrow>
          if searchResults userState = None \<and> channelVideos userState = None
          then (let (w1, r) = sendMessage w remoteJid (Text NoSearchResults)
                in (w1, userStates, completion_of r))
          else
            (let parts = split_ws (trim selection) in
             if length parts \<noteq> 2
             then (let (w1, r) = sendMessage w remoteJid (Text InvalidFormat)
                   in (w1, userStates, completion_of r))
             else
               (let videoIndex = map_option (\<lambda>n. n - 1) (parseInt (parts ! 0));
                    quality = parts ! 1;
                    videos = (case searchResults userState of
                                Some vs \<Rightarrow> vs
                              | None \<Rightarrow> the (channelVideos userState))
                in if (case videoIndex of
                         None \<Rightarrow> True
                       | Some i \<Rightarrow> i < 0 \<or> i \<ge> int (length videos))
                   then (let (w1, r) = sendMessage w remoteJid (Text (InvalidVideoNumber (length videos)))
                         in (w1, userStates, completion_of r))
                   else if quality \<notin> set [''480'', ''720'', ''1080'']
                   then (let (w1, r) = sendMessage w remoteJid (Text InvalidQuality)
                         in (w1, userStates, completion_of r))
                   else
                     (let video = videos ! nat (the videoIndex)
                      in (extCall w (DownloadAndSendVideo remoteJid video quality),
                          userStates, Returned)))))"

text \<open>
  The ordered delivery shared by \<open>sendVideoSearchResults\<close> and
  \<open>sendChannelLatestVideos\<close>: every item is prepared concurrently (its card text and
  its thumbnail), the prepared data are sorted by index and sent one after the other.
\<close>

record prepared =
  index :: nat
  videoText :: msg
  thumbnailBuffer :: "string option"

fun prepareFrom :: "env \<Rightarrow> nat \<Rightarrow> media_item list \<Rightarrow> prepared list" where
  "prepareFrom e i [] = []"
| "prepareFrom e i (video # rest) =
     \<lparr>index = i, videoText = ResultCard (i + 1) video,
      thumbnailBuffer = downloadImage e (item_thumbnail video)\<rparr> # prepareFrom e (i + 1) rest"

definition prepareVideoData :: "env \<Rightarrow> media_item list \<Rightarrow> prepared list" where
  "prepareVideoData e videos = prepareFrom e 0 videos"

text \<open>The \<open>for (const data of videoData)\<close> loop; \<open>False\<close>: a send threw out of the
  inner \<open>catch\<close>.\<close>

fun sendEach :: "world \<Rightarrow> jid \<Rightarrow> prepared list \<Rightarrow> world \<times> bool" where
  "sendEach w remoteJid [] = (w, True)"
| "sendEach w remoteJid (d # ds) =
     (let (w1, r1) =
            (case thumbnailBuffer d of
               Some b \<Rightarrow> sendMessage w remoteJid (Image b (videoText d))
             | None \<Rightarrow> sendMessage w remoteJid (Text (videoText d)))
      in case r1 of
           Some _ \<Rightarrow> sendEach w1 remoteJid ds
         | None \<Rightarrow>
             (let (w2, r2) = sendMessage w1 remoteJid (Text (videoText d))
              in case r2 of
                   Some _ \<Rightarrow> sendEach w2 remoteJid ds
                 | None \<Rightarrow> (w2, False)))"

text \<open>
  The body after \<open>await Promise.all(videoPromises)\<close>, for the array \<open>videoData\<close> the
  promises resolved to: sort by index, send each, send the closing instructions; the
  outer \<open>catch\<close> reports an error to the conversation.
\<close>

definition deliverVideoData :: "world \<Rightarrow> jid \<Rightarrow> nat \<Rightarrow> prepared list \<Rightarrow> world \<times> completion" where
  "deliverVideoData w remoteJid n videoData =
     (let (w1, ok) = sendEach w remoteJid (sort_key index videoData)
      in if ok
         then (let (w2, r) = sendMessage w1 remoteJid (Text (AllLoaded n))
               in case r of
                    Some _ \<Rightarrow> (w2, Returned)
                  | None \<Rightarrow>
                      (let (w3, r3) = sendMessage w2 remoteJid (Text ErrorDisplaying)
                       in (w3, completion_of r3)))
         else (let (w3, r3) = sendMessage w1 remoteJid (Text ErrorDisplaying)
               in (w3, completion_of r3)))"

definition sendVideoSearchResults :: "world \<Rightarrow> env \<Rightarrow> jid \<Rightarrow> media_item list \<Rightarrow> world \<times> completion" where
  "sendVideoSearchResults w e remoteJid videos =
     (let (w1, r) = sendMessage w remoteJid (Text (FoundVideos (length videos)))
      in case r of
           None \<Rightarrow>
             (let (w3, r3) = sendMessage w1 remoteJid (Text ErrorDisplaying)
              in (w3, completion_of r3))
         | Some _ \<Rightarrow> deliverVideoData w1 remoteJid (length videos) (prepareVideoData e videos))"

definition sendChannelLatestVideos ::
    "world \<Rightarrow> env \<Rightarrow> jid \<Rightarrow> media_item list \<Rightarrow> string \<Rightarrow> world \<times> completion" where
  "sendChannelLatestVideos w e remoteJid videos channelTitle =
     (let (w1, r) = sendMessage w remoteJid (Text (LatestFrom (length videos) channelTitle))
      in case r of
           None \<Rightarrow>
             (let (w3, r3) = sendMessage w1 remoteJid (Text ErrorDisplaying)
              in (w3, completion_of r3))
         | Some _ \<Rightarrow> deliverVideoData w1 remoteJid (length videos) (prepareVideoData e videos))"

text \<open>\<open>handleChannelSelection\<close>. \<open>videoCount\<close> is \<open>None\<close> when \<open>Math.min\<close> yields
  \<open>NaN\<close>.\<close>

definition videoCountOf :: "string list \<Rightarrow> int option" where
  "videoCountOf parts =
     (if length parts > 1 then map_option (\<lambda>n. min n 20) (parseInt (parts ! 1)) else Some 10)"

text \<open>The \<open>catch\<close> block of \<open>handleChannelSelection\<close>.\<close>

definition channelSelectionFailed :: "world \<Rightarrow> user_states \<Rightarrow> jid \<Rightarrow> world \<times> user_states \<times> completion" where
  "channelSelectionFailed w userStates remoteJid =
     (let (w1, r1) = sendMessage w remoteJid (Text FailedChannelVideos)
      in case r1 of
           None \<Rightarrow> (w1, userStates, Thrown)
         | Some _ \<Rightarrow>
             (let (w2, r2) = sendPresenceUpdate w1 ''available'' remoteJid
              in (w2, userStates, completion_of r2)))"

text \<open>The \<open>try\<close> block of \<open>handleChannelSelection\<close>.\<close>

definition handleChannelSelection_try ::
    "world \<Rightarrow> env \<Rightarrow> user_states \<Rightarrow> jid \<Rightarrow> media_item \<Rightarrow> int option
       \<Rightarrow> world \<times> user_states \<times> completion" where
  "handleChannelSelection_try w e userStates remoteJid channel videoCount =
     (let (w1, r1) = sendPresenceUpdate w ''composing'' remoteJid
      in case r1 of
           None \<Rightarrow> (w1, userStates, Thrown)
         | Some _ \<Rightarrow>
             (let (w2, r2) = sendMessage w1 remoteJid (Text (GettingLatest videoCount (item_title channel)))
              in case r2 of
                   None \<Rightarrow> (w2, userStates, Thrown)
                 | Some _ \<Rightarrow>
                     (let w3 = extCall w2 (GetChannelLatestVideos (item_id channel) videoCount);
                          videosResult = getChannelLatestVideos e (item_id channel) videoCount
                      in case (case videosResult of
                                 FetchOk vs \<Rightarrow> if length vs > 0 then Some vs else None
                               | FetchFailed _ \<Rightarrow> None) of
                           Some vs \<Rightarrow>
                             (let userStates' = userStates(remoteJid \<mapsto>
                                    \<lparr>state = channel_videos_results, searchResults = None,
                                     channelVideos = Some vs, selectedChannel = Some channel\<rparr>);
                                  (w4, c4) = sendChannelLatestVideos w3 e remoteJid vs (item_title channel)
                              in case c4 of
                                   Thrown \<Rightarrow> (w4, userStates', Thrown)
                                 | Returned \<Rightarrow>
                                     (let (w5, r5) = sendPresenceUpdate w4 ''available'' remoteJid
                                      in (w5, userStates', completion_of r5)))
                         | None \<Rightarrow>
                             (let (w4, r4) = sendMessage w3 remoteJid
                                    (Text (FailedToGetVideos (item_title channel)
                                       (case videosResult of FetchFailed err \<Rightarrow> err | FetchOk _ \<Rightarrow> [])))
                              in case r4 of
                                   None \<Rightarrow> (w4, userStates, Thrown)
                                 | Some _ \<Rightarrow>
                                     (let (w5, r5) = sendPresenceUpdate w4 ''available'' remoteJid
                                      in (w5, userStates, completion_of r5))))))"

definition handleChannelSelection ::
    "world \<Rightarrow> env \<Rightarrow> user_states \<Rightarrow> jid \<Rightarrow> string \<Rightarrow> world \<times> user_states \<times> completion" where
  "handleChannelSelection w e userStates remoteJid selection =
     (case userStates remoteJid of
        None \<Rightarrow>
          (let (w1, r) = sendMessage w remoteJid (Text NoChannelResults)
           in (w1, userStates, completion_of r))
      | Some userState \<Rightarrow>
          if state userState \<noteq> channel_search_results
          then (let (w1, r) = sendMessage w remoteJid (Text NoChannelResults)
                in (w1, userStates, completion_of r))
          else
            (let parts = split_ws (trim selection);
                 channelIndex = map_option (\<lambda>n. n - 1) (parseInt (parts ! 0));
                 videoCount = videoCountOf parts
             in case searchResults userState of
                  None \<Rightarrow> (w, userStates, Thrown)
                | Some channels \<Rightarrow>
                    if (case channelIndex of
                          None \<Rightarrow> True
                        | Some i \<Rightarrow> i < 0 \<or> i \<ge> int (length channels))
                    then (let (w1, r) = sendMessage w remoteJid (Text (InvalidChannelNumber (length channels)))
                          in (w1, userStates, completion_of r))
                    else
                      (let channel = channels ! nat (the channelIndex);
                           (w1, userStates1, c) =
                             handleChannelSelection_try w e userStates remoteJid channel videoCount
                       in case c of
                            Returned \<Rightarrow> (w1, userStates1, Returned)
                          | Thrown \<Rightarrow> channelSelectionFailed w1 userStates1 remoteJid)))"

section \<open>The inbound message handler (bot)\<close>

text \<open>
  \<open>messagesUpsertHandler\<close> for the text of a notification that another user sent (the
  handler returns at once for anything else). The state-reply part is the \<open>switch\<close> on
  the conversation's state with the acceptance pattern of each state. Handlers of other
  modules are recorded as delegated calls; the bookkeeping of saved chats is left out.
\<close>

datatype route =
    FileSelection
  | CancelFileBrowser
  | ConfirmFileDelete
  | VideoSelection
  | ChannelSelection
  | AnimeSelection
  | EpisodeSelection
  | QualitySelection
  | AutomatedAnimeConfirmation
  | MusicSelection
  | SaveCookies
  | AutoReply

definition route_of :: "user_state option \<Rightarrow> string \<Rightarrow> route" where
  "route_of userState trimmedText =
     (case userState of
        None \<Rightarrow> AutoReply
      | Some u \<Rightarrow>
          (case state u of
             selecting_file \<Rightarrow>
               if re_digits trimmedText then FileSelection
               else if toLowerCase trimmedText = ''cancel'' then CancelFileBrowser
               else AutoReply
           | confirming_delete \<Rightarrow> ConfirmFileDelete
           | video_search_results \<Rightarrow>
               if re_video_reply trimmedText then VideoSelection else AutoReply
           | channel_search_results \<Rightarrow>
               if re_channel_reply trimmedText then ChannelSelection else AutoReply
           | channel_videos_results \<Rightarrow>
               if re_video_reply trimmedText then VideoSelection else AutoReply
           | anime_selection \<Rightarrow>
               if re_digits trimmedText then AnimeSelection else AutoReply
           | episode_selection \<Rightarrow>
               if re_digits trimmedText \<or> re_range trimmedText then EpisodeSelection else AutoReply
           | quality_selection \<Rightarrow>
               if re_digits trimmedText then QualitySelection else AutoReply
           | automated_anime_confirmation \<Rightarrow> AutomatedAnimeConfirmation
           | music_search_results \<Rightarrow>
               if re_digits trimmedText then MusicSelection else AutoReply
           | waiting_for_cookies \<Rightarrow> SaveCookies
           | other_state _ \<Rightarrow> AutoReply))"

definition route_name :: "route \<Rightarrow> string" where
  "route_name r =
     (case r of
        FileSelection \<Rightarrow> ''handleFileSelection''
      | ConfirmFileDelete \<Rightarrow> ''confirmFileDelete''
      | AnimeSelection \<Rightarrow> ''handleAnimeSelection''
      | EpisodeSelection \<Rightarrow> ''handleEpisodeSelection''
      | QualitySelection \<Rightarrow> ''handleQualitySelection''
      | AutomatedAnimeConfirmation \<Rightarrow> ''handleAutomatedAnimeConfirmation''
      | MusicSelection \<Rightarrow> ''handleMusicSelection''
      | SaveCookies \<Rightarrow> ''saveCookies''
      | _ \<Rightarrow> [])"

text \<open>The \<open>try\<close> body; the handler's \<open>catch\<close> logs what was thrown and returns.\<close>

definition dispatch_reply ::
    "world \<Rightarrow> env \<Rightarrow> user_states \<Rightarrow> jid \<Rightarrow> string \<Rightarrow> world \<times> user_states \<times> completion" where
  "dispatch_reply w e userStates remoteJid messageText =
     (let trimmedText = trim messageText in
      case route_of (userStates remoteJid) trimmedText of
        VideoSelection \<Rightarrow> handleVideoSelection w userStates remoteJid trimmedText
      | ChannelSelection \<Rightarrow> handleChannelSelection w e userStates remoteJid trimmedText
      | CancelFileBrowser \<Rightarrow>
          (let (w1, r) = sendMessage w remoteJid (Text FileBrowserCancelled)
           in (w1, userStates(remoteJid := None), completion_of r))
      | AutoReply \<Rightarrow>
          (let (w1, r) = sendMessage w remoteJid (Text DefaultAutoReply)
           in (w1, userStates, completion_of r))
      | r \<Rightarrow> (extCall w (Delegate (route_name r) trimmedText), userStates, Returned))"

definition messagesUpsertHandler ::
    "world \<Rightarrow> env \<Rightarrow> user_states \<Rightarrow> jid \<Rightarrow> string \<Rightarrow> world \<times> user_states" where
  "messagesUpsertHandler w e userStates remoteJid messageText =
     (if trim messageText = [] then (w, userStates)
      else if prefix ''/'' (trim messageText)
      then (extCall w (Delegate ''handleCommand'' (trim messageText)), userStates)
      else
        (let (w1, userStates', c) = dispatch_reply w e userStates remoteJid messageText
         in case c of
              Returned \<Rightarrow> (w1, userStates')
            | Thrown \<Rightarrow> (extCall w1 (ConsoleLog ''Error processing message''), userStates')))"

section \<open>The progress tracker (progress module)\<close>

text \<open>
  \<open>Date.now()\<close> is a parameter \<open>now\<close> (milliseconds, an integer) of every operation that
  reads the clock. The side-channel progress file read by \<open>getPythonProgress\<close> is the
  parameter \<open>py\<close>: the sample stored for a session id, if any; reading it never throws.
  Calls on one tracker are modelled one after the other: each runs to completion before
  the next begins.
\<close>

record progress_tracker =
  remoteJid :: jid
  totalItems :: nat
  itemType :: string
  completed :: nat
  failed :: nat
  currentItem :: "string option"
  startTime :: int
  lastUpdate :: int
  currentSessionId :: "string option"
  lastProgressMessage :: "msg option"
  lastProgressMessageId :: "key option"
  lastProgressPercentage :: rat
  isYouTube :: bool
  youtubeProgress :: progress_data

definition no_progress :: progress_data where
  "no_progress =
     \<lparr>progress = 0, total_size = [], downloaded_size = [], speed = [], eta = [], time_elapsed = []\<rparr>"

definition new_ProgressTracker :: "jid \<Rightarrow> nat \<Rightarrow> string \<Rightarrow> int \<Rightarrow> progress_tracker" where
  "new_ProgressTracker jid n ty now =
     \<lparr>remoteJid = jid, totalItems = n, itemType = ty, completed = 0, failed = 0,
      currentItem = None, startTime = now, lastUpdate = 0, currentSessionId = None,
      lastProgressMessage = None, lastProgressMessageId = None, lastProgressPercentage = 0,
      isYouTube = False, youtubeProgress = no_progress\<rparr>"

text \<open>\<open>start\<close> announces the job; the announcement is not recorded as a live message.
  (The timer it sets and the registry of active downloads are the callers of
  \<open>checkAndSendProgressUpdate\<close> below.)\<close>

definition start :: "world \<Rightarrow> progress_tracker \<Rightarrow> world \<times> progress_tracker \<times> completion" where
  "start w t =
     (let (w1, r) = sendMessage w (remoteJid t) (Text (StartingDownload (itemType t) (totalItems t)))
      in (w1, t, completion_of r))"

definition updateYouTubeProgress :: "progress_tracker \<Rightarrow> progress_data \<Rightarrow> progress_tracker" where
  "updateYouTubeProgress t pd = t\<lparr>isYouTube := True, youtubeProgress := pd\<rparr>"

definition getPythonProgress :: "(string \<Rightarrow> progress_data option) \<Rightarrow> string \<Rightarrow> progress_data option" where
  "getPythonProgress py sessionId = py sessionId"

text \<open>The best-effort deletion of the previous live message:
  \<open>try { await sendMessage({delete: id}) } catch { }\<close>.\<close>

definition deletePrevious :: "world \<Rightarrow> jid \<Rightarrow> key option \<Rightarrow> world" where
  "deletePrevious w jid lastId =
     (case lastId of
        Some k \<Rightarrow> fst (sendMessage w jid (Delete k))
      | None \<Rightarrow> w)"

text \<open>The sample \<open>sendProgressUpdate\<close> reports: the tracker's own for a video job, the
  one in the progress file for a session, none otherwise.\<close>

definition currentProgressData ::
    "(string \<Rightarrow> progress_data option) \<Rightarrow> progress_tracker \<Rightarrow> progress_data option" where
  "currentProgressData py t =
     (if isYouTube t then Some (youtubeProgress t)
      else (case currentSessionId t of
              Some sid \<Rightarrow> (if sid \<noteq> [] then getPythonProgress py sid else None)
            | None \<Rightarrow> None))"

text \<open>The \<open>try\<close> block of \<open>sendProgressUpdate\<close>.\<close>

definition sendProgressUpdate_try ::
    "world \<Rightarrow> (string \<Rightarrow> progress_data option) \<Rightarrow> progress_tracker
       \<Rightarrow> world \<times> progress_tracker \<times> completion" where
  "sendProgressUpdate_try w py t =
     (let progressData = currentProgressData py t
      in case progressData of
           None \<Rightarrow> (w, t, Returned)
         | Some pd \<Rightarrow>
             if progress pd = 0 then (w, t, Returned)
             else if lastProgressMessage t \<noteq> None \<and> \<bar>progress pd - lastProgressPercentage t\<bar> < 1
             then (w, t, Returned)
             else
               (let progressText = ProgressText (isYouTube t) (currentItem t) pd;
                    w1 = deletePrevious w (remoteJid t) (lastProgressMessageId t);
                    (w2, r) = sendMessage w1 (remoteJid t) (Text progressText)
                in case r of
                     None \<Rightarrow> (w2, t, Thrown)
                   | Some k \<Rightarrow>
                       (w2, t\<lparr>lastProgressMessageId := Some k, lastProgressMessage := Some progressText,
                              lastProgressPercentage := progress pd\<rparr>, Returned)))"

definition sendProgressUpdate ::
    "world \<Rightarrow> (string \<Rightarrow> progress_data option) \<Rightarrow> progress_tracker
       \<Rightarrow> world \<times> progress_tracker \<times> completion" where
  "sendProgressUpdate w py t =
     (let (w1, t1, c) = sendProgressUpdate_try w py t
      in case c of
           Returned \<Rightarrow> (w1, t1, Returned)
         | Thrown \<Rightarrow> (extCall w1 (ConsoleLog ''Progress update failed:''), t1, Returned))"

definition checkAndSendProgressUpdate ::
    "world \<Rightarrow> (string \<Rightarrow> progress_data option) \<Rightarrow> int \<Rightarrow> bool \<Rightarrow> progress_tracker
       \<Rightarrow> world \<times> progress_tracker \<times> completion" where
  "checkAndSendProgressUpdate w py now force t =
     (if force \<or> now - lastUpdate t \<ge> 5000
      then (let (w1, t1, c) = sendProgressUpdate w py t
            in case c of
                 Returned \<Rightarrow> (w1, t1\<lparr>lastUpdate := now\<rparr>, Returned)
               | Thrown \<Rightarrow> (w1, t1, Thrown))
      else (w, t, Returned))"


text \<open>\<open>finish\<close>: the deletion is guarded, the final summary send is not.\<close>

definition finish :: "world \<Rightarrow> int \<Rightarrow> progress_tracker \<Rightarrow> world \<times> progress_tracker \<times> completion" where
  "finish w now t =
     (let w1 = deletePrevious w (remoteJid t) (lastProgressMessageId t);
          elapsed = (now - startTime t) div 1000;
          (w2, r) = sendMessage w1 (remoteJid t)
                      (Text (DownloadComplete (completed t) (totalItems t) elapsed (failed t)))
      in (w2, t, completion_of r))"

section \<open>The optimized progress tracker and the throttle (performance module)\<close>

record optimized_tracker =
  remoteJid_o :: jid
  totalItems_o :: nat
  itemType_o :: string
  completed_o :: nat
  failed_o :: nat
  startTime_o :: int
  lastUpdate_o :: int
  lastProgressMessageId_o :: "key option"
  updateThreshold :: int
  progressData :: progress_data

definition new_OptimizedProgressTracker :: "jid \<Rightarrow> nat \<Rightarrow> string \<Rightarrow> int \<Rightarrow> optimized_tracker" where
  "new_OptimizedProgressTracker jid n ty now =
     \<lparr>remoteJid_o = jid, totalItems_o = n, itemType_o = ty, completed_o = 0, failed_o = 0,
      startTime_o = now, lastUpdate_o = 0, lastProgressMessageId_o = None,
      updateThreshold = 2000, progressData = no_progress\<rparr>"

definition start_o :: "world \<Rightarrow> optimized_tracker \<Rightarrow> world \<times> optimized_tracker \<times> completion" where
  "start_o w t =
     (let (w1, r) = sendMessage w (remoteJid_o t) (Text (StartingProcessing (itemType_o t) (totalItems_o t)))
      in case r of
           None \<Rightarrow> (w1, t, Thrown)
         | Some k \<Rightarrow> (w1, t\<lparr>lastProgressMessageId_o := Some k\<rparr>, Returned))"

text \<open>
  \<open>updateProgress\<close>. Every caller passes all six fields, so the spread
  \<open>{...this.progressData, ...progressData}\<close> is the new sample.
\<close>

definition updateProgress ::
    "world \<Rightarrow> int \<Rightarrow> progress_data \<Rightarrow> optimized_tracker \<Rightarrow> world \<times> optimized_tracker \<times> completion" where
  "updateProgress w now pd t =
     (if now - lastUpdate_o t < updateThreshold t then (w, t, Returned)
      else
        (let t1 = t\<lparr>progressData := pd, lastUpdate_o := now\<rparr>;
             w1 = deletePrevious w (remoteJid_o t1) (lastProgressMessageId_o t1);
             (w2, r) = sendMessage w1 (remoteJid_o t1) (Text (ProcessingText (itemType_o t1) (progressData t1)))
         in case r of
              None \<Rightarrow> (w2, t1, Thrown)
            | Some k \<Rightarrow> (w2, t1\<lparr>lastProgressMessageId_o := Some k\<rparr>, Returned)))"

definition finish_o :: "world \<Rightarrow> int \<Rightarrow> optimized_tracker \<Rightarrow> world \<times> optimized_tracker \<times> completion" where
  "finish_o w now t =
     (let w1 = deletePrevious w (remoteJid_o t) (lastProgressMessageId_o t);
          elapsed = (now - startTime_o t) div 1000;
          (w2, r) = sendMessage w1 (remoteJid_o t)
                      (Text (Completed (completed_o t) (totalItems_o t) elapsed (failed_o t)))
      in (w2, t, completion_of r))"

text \<open>
  \<open>PerformanceManager.throttleOperation\<close>. The event loop runs one synchronous segment
  at a time; the segments of a call are: entering (the first test of the \<open>while\<close>
  condition), waking from the 10 ms timer (the test again), and the settlement of
  \<open>operation()\<close>, fulfilled or rejected, followed by the \<open>finally\<close> block. A schedule is a
  list of such segments, each naming the call it belongs to.
\<close>

record performance_manager =
  maxConcurrency :: int
  activeOperations :: int

definition new_PerformanceManager :: performance_manager where
  "new_PerformanceManager = \<lparr>maxConcurrency = 10, activeOperations = 0\<rparr>"

datatype phase = NotStarted | Waiting | Running | Settled completion

datatype segment = Enter nat | Wake nat | Fulfil nat | Reject nat

record throttle_state =
  manager :: performance_manager
  phases :: "phase list"

text \<open>One test of the loop condition; when it fails, the count is incremented and the
  operation is started in the same segment.\<close>

definition admit :: "nat \<Rightarrow> throttle_state \<Rightarrow> throttle_state" where
  "admit i s =
     (if activeOperations (manager s) \<ge> maxConcurrency (manager s)
      then s\<lparr>phases := (phases s)[i := Waiting]\<rparr>
      else s\<lparr>manager := (manager s)\<lparr>activeOperations := activeOperations (manager s) + 1\<rparr>,
             phases := (phases s)[i := Running]\<rparr>)"

definition release :: "nat \<Rightarrow> completion \<Rightarrow> throttle_state \<Rightarrow> throttle_state" where
  "release i c s =
     s\<lparr>manager := (manager s)\<lparr>activeOperations := activeOperations (manager s) - 1\<rparr>,
       phases := (phases s)[i := Settled c]\<rparr>"

definition throttle_step :: "segment \<Rightarrow> throttle_state \<Rightarrow> throttle_state option" where
  "throttle_step seg s =
     (case seg of
        Enter i \<Rightarrow>
          if i < length (phases s) \<and> phases s ! i = NotStarted then Some (admit i s) else None
      | Wake i \<Rightarrow>
          if i < length (phases s) \<and> phases s ! i = Waiting then Some (admit i s) else None
      | Fulfil i \<Rightarrow>
          if i < length (phases s) \<and> phases s ! i = Running then Some (release i Returned s) else None
      | Reject i \<Rightarrow>
          if i < length (phases s) \<and> phases s ! i = Running then Some (release i Thrown s) else None)"

fun throttle_run :: "segment list \<Rightarrow> throttle_state \<Rightarrow> throttle_state option" where
  "throttle_run [] s = Some s"
| "throttle_run (seg # segs) s =
     (case throttle_step seg s of
        None \<Rightarrow> None
      | Some s' \<Rightarrow> throttle_run segs s')"

definition throttle_init :: "performance_manager \<Rightarrow> nat \<Rightarrow> throttle_state" where
  "throttle_init pm n = \<lparr>manager = pm, phases = replicate n NotStarted\<rparr>"

definition running :: "throttle_state \<Rightarrow> nat" where
  "running s = length (filter (\<lambda>p. p = Running) (phases s))"

section \<open>Progress line parsers\<close>

text \<open>
  The regular expressions of the parsers, each as the function that finds its leftmost
  match and returns capture group 1. A pattern is tried at every position from the left
  (\<open>leftmost\<close>); at one position each pattern has at most one way to match, because a
  run it gives back is followed by a character the next element of the pattern rejects.
\<close>

fun leftmost :: "(string \<Rightarrow> string option) \<Rightarrow> string \<Rightarrow> string option" where
  "leftmost m [] = m []"
| "leftmost m (c # cs) =
     (case m (c # cs) of
        Some g \<Rightarrow> Some g
      | None \<Rightarrow> leftmost m cs)"

definition isNumDot :: "char \<Rightarrow> bool" where
  "isNumDot c = (isDigit c \<or> c = CHR ''.'')"

definition isUnit :: "char \<Rightarrow> bool" where
  "isUnit c = (c \<in> set ''KMGT'')"

text \<open>\<open>\d+\.?\d*\<close> at the head of \<open>s\<close>: the text matched and the rest.\<close>

definition decimal_at :: "string \<Rightarrow> (string \<times> string) option" where
  "decimal_at s =
     (let d1 = takeWhile isDigit s; r1 = dropWhile isDigit s
      in if d1 = [] then None
         else (case r1 of
                 c # r2 \<Rightarrow>
                   (if c = CHR ''.''
                    then Some (d1 @ [c] @ takeWhile isDigit r2, dropWhile isDigit r2)
                    else Some (d1, r1))
               | [] \<Rightarrow> Some (d1, r1)))"

text \<open>\<open>[KMGT]?iB\<close> followed by \<open>sfx\<close>, at the head of \<open>s\<close>.\<close>

definition unit_at :: "string \<Rightarrow> string \<Rightarrow> (string \<times> string) option" where
  "unit_at sfx s =
     (let u = (case s of c # _ \<Rightarrow> (if isUnit c then [c] else []) | [] \<Rightarrow> []);
          r = drop (length u) s
      in if prefix (''iB'' @ sfx) r
         then Some (u @ ''iB'' @ sfx, drop (length (''iB'' @ sfx)) r)
         else None)"

text \<open>\<open>/(\d+\.?\d*)%/\<close>. When the dot is followed by something else than digits and
  \<open>%\<close>, the match without the dot needs \<open>%\<close> where the dot stands, so it fails too.\<close>

definition percent_at :: "string \<Rightarrow> string option" where
  "percent_at s =
     (case decimal_at s of
        None \<Rightarrow> None
      | Some (g, r) \<Rightarrow> (if prefix ''%'' r then Some g else None))"

definition percentMatch :: "string \<Rightarrow> string option" where
  "percentMatch line = leftmost percent_at line"

text \<open>\<open>/of\s+([0-9.]+[KMGT]?iB)/\<close>\<close>

definition size_at :: "string \<Rightarrow> string \<Rightarrow> string \<Rightarrow> string option" where
  "size_at word sfx s =
     (if prefix word s
      then (let r = drop (length word) s;
                ws = takeWhile isSpace r; r1 = dropWhile isSpace r;
                n = takeWhile isNumDot r1; r2 = dropWhile isNumDot r1
            in if ws = [] \<or> n = [] then None
               else (case unit_at sfx r2 of
                       None \<Rightarrow> None
                     | Some (u, _) \<Rightarrow> Some (n @ u)))
      else None)"

definition sizeMatch :: "string \<Rightarrow> string option" where
  "sizeMatch line = leftmost (size_at ''of'' []) line"

text \<open>\<open>/at\s+([0-9.]+[KMGT]?iB\/s)/\<close>\<close>

definition speedMatch :: "string \<Rightarrow> string option" where
  "speedMatch line = leftmost (size_at ''at'' ''/s'') line"

text \<open>\<open>/(\d+\.?\d*[KMGT]?iB)\s+of/\<close>\<close>

definition downloaded_at :: "string \<Rightarrow> string option" where
  "downloaded_at s =
     (case decimal_at s of
        None \<Rightarrow> None
      | Some (g, r) \<Rightarrow>
          (case unit_at [] r of
             None \<Rightarrow> None
           | Some (u, r1) \<Rightarrow>
               (if takeWhile isSpace r1 \<noteq> [] \<and> prefix ''of'' (dropWhile isSpace r1)
                then Some (g @ u) else None)))"

definition downloadedMatch :: "string \<Rightarrow> string option" where
  "downloadedMatch line = leftmost downloaded_at line"

text \<open>\<open>/ETA\s+([0-9:]+)/\<close>\<close>

definition eta_at :: "string \<Rightarrow> string option" where
  "eta_at s =
     (if prefix ''ETA'' s
      then (let r = drop 3 s;
                ws = takeWhile isSpace r; r1 = dropWhile isSpace r;
                g = takeWhile (\<lambda>c. isDigit c \<or> c = CHR '':'') r1
            in if ws = [] \<or> g = [] then None else Some g)
      else None)"

definition etaMatch :: "string \<Rightarrow> string option" where
  "etaMatch line = leftmost eta_at line"

text \<open>\<open>Number.parseFloat\<close> on a captured \<open>\d+\.?\d*\<close>: the decimal value, exact.\<close>

definition decimalValue :: "string \<Rightarrow> nat" where
  "decimalValue ds = foldl (\<lambda>a c. a * 10 + digitVal c) 0 ds"

definition parseFloat :: "string \<Rightarrow> rat" where
  "parseFloat s =
     (let ip = takeWhile isDigit s; fp = takeWhile isDigit (drop 1 (dropWhile isDigit s))
      in of_nat (decimalValue ip) + of_nat (decimalValue fp) / of_nat (10 ^ length fp))"

definition or_empty :: "string option \<Rightarrow> string" where
  "or_empty m = (case m of Some g \<Rightarrow> g | None \<Rightarrow> [])"

text \<open>The elapsed-time string \<open>mm:ss\<close>; \<open>%\<close> is JavaScript's remainder.\<close>

definition padStart2 :: "string \<Rightarrow> string" where
  "padStart2 s = replicate (2 - length s) CHR ''0'' @ s"

definition js_rem :: "int \<Rightarrow> int \<Rightarrow> int" where
  "js_rem a b = (if a < 0 then - ((- a) mod b) else a mod b)"

definition elapsedText :: "int \<Rightarrow> int \<Rightarrow> string" where
  "elapsedText now since =
     (let elapsed_seconds = (now - since) div 1000;
          minutes = elapsed_seconds div 60;
          seconds = js_rem elapsed_seconds 60
      in padStart2 (show_int minutes) @ '':'' @ padStart2 (show_int seconds))"

text \<open>
  The \<open>[download]\<close> branch, which the three parsers share word for word but for the
  \<open>audio only\<close> test (absent from the music parser) and the tracker field they read:
  \<open>current\<close> is the progress recorded in the tracker. \<open>EarlyReturn\<close> is a \<open>return\<close>
  statement, \<open>Sample\<close> the object handed to the tracker.
\<close>

datatype branch_result = EarlyReturn | NoSample | Sample progress_data

definition downloadBranch :: "bool \<Rightarrow> string \<Rightarrow> int \<Rightarrow> int \<Rightarrow> rat \<Rightarrow> branch_result" where
  "downloadBranch skipAudioOnly line now since current =
     (if str_includes line ''[download]'' \<and> str_includes line ''%''
      then
        (if str_includes line ''fragment'' \<or> (skipAudioOnly \<and> str_includes line ''audio only'')
         then EarlyReturn
         else
           (case percentMatch line of
              None \<Rightarrow> NoSample
            | Some g \<Rightarrow>
                (let p = parseFloat g in
                 if p \<ge> 100 \<and> current \<ge> 100 then EarlyReturn
                 else
                   (let ts = or_empty (sizeMatch line);
                        ds = or_empty (downloadedMatch line);
                        sp = or_empty (speedMatch line);
                        et = or_empty (etaMatch line);
                        te = elapsedText now since
                    in if ts \<noteq> [] \<and> p > current
                       then Sample \<lparr>progress = p, total_size = ts, downloaded_size = ds,
                                    speed = sp, eta = et, time_elapsed = te\<rparr>
                       else NoSample))))
      else NoSample)"

text \<open>\<open>parseYouTubeProgress\<close> of the progress module, on a \<open>ProgressTracker\<close>.\<close>

definition parseYouTubeProgress_pt :: "string \<Rightarrow> int \<Rightarrow> progress_tracker \<Rightarrow> progress_tracker" where
  "parseYouTubeProgress_pt line now t =
     (case downloadBranch True line now (startTime t) (progress (youtubeProgress t)) of
        Sample pd \<Rightarrow> updateYouTubeProgress t pd
      | _ \<Rightarrow> t)"

text \<open>
  \<open>parseYouTubeProgress\<close> of the youtube module, on an \<open>OptimizedProgressTracker\<close>.
  \<open>updateProgress\<close> is called without \<open>await\<close>: a rejection of its promise does not
  reach the parser. The parser and \<open>updateProgress\<close> read the clock within the same
  synchronous segment; both readings are \<open>now\<close>.
\<close>

definition youtubeSample :: "string \<Rightarrow> int \<Rightarrow> optimized_tracker \<Rightarrow> progress_data option" where
  "youtubeSample line now t =
     (case downloadBranch True line now (startTime_o t) (progress (progressData t)) of
        Sample pd \<Rightarrow> Some pd
      | _ \<Rightarrow> None)"

definition parseYouTubeProgress :: "world \<Rightarrow> string \<Rightarrow> int \<Rightarrow> optimized_tracker \<Rightarrow> world \<times> optimized_tracker" where
  "parseYouTubeProgress w line now t =
     (case youtubeSample line now t of
        None \<Rightarrow> (w, t)
      | Some pd \<Rightarrow> (let (w1, t1, c) = updateProgress w now pd t in (w1, t1)))"

text \<open>\<open>parseMusicProgress\<close> of the music module: the same branch without the
  \<open>audio only\<close> test, then the post-processing marker.\<close>

definition converting :: progress_data where
  "converting =
     \<lparr>progress = 95, total_size = ''Converting...'', downloaded_size = [], speed = [],
      eta = ''Almost done'', time_elapsed = []\<rparr>"

definition musicSamples :: "string \<Rightarrow> int \<Rightarrow> optimized_tracker \<Rightarrow> progress_data list" where
  "musicSamples line now t =
     (case downloadBranch False line now (startTime_o t) (progress (progressData t)) of
        EarlyReturn \<Rightarrow> []
      | r \<Rightarrow>
          (case r of Sample pd \<Rightarrow> [pd] | _ \<Rightarrow> []) @
          (if str_includes line ''[ffmpeg]'' \<and> str_includes line ''Destination:''
           then [converting] else []))"



text \<open>Feeding the lines of one job, each with the time it is read at.\<close>

fun feed_pt :: "(string \<times> int) list \<Rightarrow> progress_tracker \<Rightarrow> progress_tracker list" where
  "feed_pt [] t = []"
| "feed_pt ((line, now) # rest) t =
     (let t1 = parseYouTubeProgress_pt line now t in t1 # feed_pt rest t1)"

fun feed_o :: "(string \<times> int) list \<Rightarrow> world \<Rightarrow> optimized_tracker \<Rightarrow> optimized_tracker list" where
  "feed_o [] w t = []"
| "feed_o ((line, now) # rest) w t =
     (let (w1, t1) = parseYouTubeProgress w line now t in t1 # feed_o rest w1 t1)"

section \<open>Concrete inputs\<close>

definition video_no :: "nat \<Rightarrow> media_item" where
  "video_no i =
     \<lparr>item_id = ''v'' @ show_nat i, item_title = ''Title '' @ show_nat i,
      item_url = ''https://www.youtube.com/watch?v=v'' @ show_nat i,
      item_thumbnail = ''thumb'' @ show_nat i, item_channelTitle = ''Channel''\<rparr>"

definition three_results :: user_states where
  "three_results =
     [''chat'' \<mapsto> \<lparr>state = video_search_results,
                    searchResults = Some [video_no 1, video_no 2, video_no 3],
                    channelVideos = None, selectedChannel = None\<rparr>]"

text \<open>A transport on which every call succeeds, and one whose next call throws.\<close>

definition fresh_world :: world where
  "fresh_world = \<lparr>outcomes = [], nextKey = 0, trace = []\<rparr>"

definition failing_world :: world where
  "failing_world = \<lparr>outcomes = [True], nextKey = 0, trace = []\<rparr>"

definition no_env :: env where
  "no_env = \<lparr>getChannelLatestVideos = (\<lambda>_ _. FetchFailed []), downloadImage = (\<lambda>_. None)\<rparr>"

definition sample_at :: "rat \<Rightarrow> progress_data" where
  "sample_at p = no_progress\<lparr>progress := p, total_size := ''10.00MiB''\<rparr>"

definition video_tracker :: optimized_tracker where
  "video_tracker = new_OptimizedProgressTracker ''chat'' 1 ''video'' 0"

definition episode_tracker :: progress_tracker where
  "episode_tracker = updateYouTubeProgress (new_ProgressTracker ''chat'' 1 ''episode'' 0) (sample_at 10)"



text \<open>The optimized tracker after \<open>start\<close>, holding the key of its first message.\<close>

definition started_world :: world where
  "started_world =
     \<lparr>outcomes = [], nextKey = 1,
      trace = [Sock (SendMessage ''chat'' (Text (StartingProcessing ''video'' 1))) (Some 0)]\<rparr>"

definition started_tracker :: optimized_tracker where
  "started_tracker = video_tracker\<lparr>lastProgressMessageId_o := Some 0\<rparr>"

text \<open>Three channels found; an image fetch that fails for the second thumbnail.\<close>

definition three_channels :: user_states where
  "three_channels =
     [''chat'' \<mapsto> \<lparr>state = channel_search_results,
                    searchResults = Some [video_no 1, video_no 2, video_no 3],
                    channelVideos = None, selectedChannel = None\<rparr>]"

definition thumb_env :: env where
  "thumb_env =
     \<lparr>getChannelLatestVideos = (\<lambda>_ _. FetchFailed []),
      downloadImage = (\<lambda>u. if u = ''thumb2'' then None else Some (''jpeg:'' @ u))\<rparr>"

section \<open>Sequences of tracker calls, and what a trace shows\<close>
















text \<open>The contents delivered to the conversation, in order; the calls made to the
  collaborators, in order.\<close>

definition delivered_of :: "event list \<Rightarrow> content list" where
  "delivered_of evs =
     concat (map (\<lambda>ev. case ev of Sock (SendMessage _ c) (Some _) \<Rightarrow> [c] | _ \<Rightarrow> []) evs)"

definition delivered :: "world \<Rightarrow> content list" where
  "delivered w = delivered_of (trace w)"

definition ext_calls_of :: "event list \<Rightarrow> ext_call list" where
  "ext_calls_of evs = concat (map (\<lambda>ev. case ev of Ext c \<Rightarrow> [c] | _ \<Rightarrow> []) evs)"

definition ext_calls :: "world \<Rightarrow> ext_call list" where
  "ext_calls w = ext_calls_of (trace w)"

text \<open>How a prepared item is sent first: with its thumbnail when there is one.\<close>

definition card_for :: "prepared \<Rightarrow> content" where
  "card_for d =
     (case thumbnailBuffer d of
        Some b \<Rightarrow> Image b (videoText d)
      | None \<Rightarrow> Text (videoText d))"

text \<open>The number on a result card.\<close>

definition card_number :: "content \<Rightarrow> nat option" where
  "card_number c =
     (case c of
        Text (ResultCard n _) \<Rightarrow> Some n
      | Image _ (ResultCard n _) \<Rightarrow> Some n
      | _ \<Rightarrow> None)"

definition card_numbers :: "content list \<Rightarrow> nat list" where
  "card_numbers cs = concat (map (\<lambda>c. case card_number c of Some n \<Rightarrow> [n] | None \<Rightarrow> []) cs)"

section \<open>Invariants\<close>

text \<open>The throttle's count is the number of running operations, within the maximum.\<close>

definition throttle_inv :: "throttle_state \<Rightarrow> bool" where
  "throttle_inv s =
     (activeOperations (manager s) = int (running s)
      \<and> activeOperations (manager s) \<le> maxConcurrency (manager s))"



text \<open>A transport none of whose coming calls throws.\<close>

definition quiet :: "world \<Rightarrow> bool" where
  "quiet w = (True \<notin> set (outcomes w))"


section \<open>Reading traces\<close>

lemma trace_sockCall:
  "trace (fst (sockCall w c)) = trace w @ [Sock c (snd (sockCall w c))]"
  by (auto simp: sockCall_def split: list.splits bool.splits)

lemma trace_sendMessage:
  "sendMessage w j c = (w', r) \<Longrightarrow> trace w' = trace w @ [Sock (SendMessage j c) r]"
  using trace_sockCall [of w "SendMessage j c"]
  by (simp add: sendMessage_def)

lemma trace_sendPresenceUpdate:
  "sendPresenceUpdate w p j = (w', r) \<Longrightarrow> trace w' = trace w @ [Sock (SendPresenceUpdate p j) r]"
  using trace_sockCall [of w "SendPresenceUpdate p j"]
  by (simp add: sendPresenceUpdate_def)

lemma trace_extCall: "trace (extCall w c) = trace w @ [Ext c]"
  by (simp add: extCall_def)











section \<open>Video selection\<close>

lemma handleVideoSelection_keeps_states:
  "fst (snd (handleVideoSelection w userStates jid selection)) = userStates"
  by (simp add: handleVideoSelection_def Let_def split: option.splits prod.splits)

text \<open>
  C1. A conversation holds three cached search results in the state
  \<open>video_search_results\<close> and receives \<open>2 720\<close>. The message handler routes the reply to
  the video selection, which calls the download with the second video (index 1) and
  quality \<open>720\<close>. The conversation's entry in the state map is the same afterwards: it
  is not removed.
\<close>

theorem video_selection_state_not_cleared:
  "(let (w, userStates) = messagesUpsertHandler fresh_world no_env three_results ''chat'' ''2 720''
    in trace w = [Ext (DownloadAndSendVideo ''chat'' ([video_no 1, video_no 2, video_no 3] ! 1) ''720'')]
       \<and> userStates = three_results
       \<and> userStates ''chat'' \<noteq> None)"
proof -
  have t: "trim ''2 720'' = ''2 720''"
    by (simp add: trim_def isSpace_def)
  have r: "route_of (three_results ''chat'') ''2 720'' = VideoSelection"
    by (simp add: route_of_def three_results_def re_video_reply_def isDigit_def isSpace_def)
  have p: "split_ws ''2 720'' = [''2'', ''720'']"
    by (simp add: split_ws_def isSpace_def)
  have i: "parseInt ''2'' = Some 2"
    by (simp add: parseInt_def isSpace_def isDigit_def hexVal_def digitVal_def)
  have h: "handleVideoSelection fresh_world three_results ''chat'' ''2 720''
             = (extCall fresh_world (DownloadAndSendVideo ''chat'' ([video_no 1, video_no 2, video_no 3] ! 1) ''720''),
                three_results, Returned)"
    by (simp add: handleVideoSelection_def three_results_def t p i Let_def)
  show ?thesis
    by (simp add: messagesUpsertHandler_def dispatch_reply_def t r h)
       (simp add: extCall_def fresh_world_def three_results_def)
qed

section \<open>Failure of the transport during progress reporting\<close>

lemma sendProgressUpdate_returns:
  "snd (snd (sendProgressUpdate w py t)) = Returned"
  by (simp add: sendProgressUpdate_def split: prod.splits completion.splits)

lemma checkAndSendProgressUpdate_returns:
  "snd (snd (checkAndSendProgressUpdate w py now force t)) = Returned"
  using sendProgressUpdate_returns [of w py t]
  by (auto simp: checkAndSendProgressUpdate_def split: prod.splits completion.splits)

text \<open>
  C2. A tracker without a live message finishes on a transport whose next send throws:
  the send of the final summary is the call that throws, and \<open>finish\<close> ends by throwing
  to its caller.
\<close>

theorem finish_propagates_send_failure:
  "finish failing_world 65000 (new_ProgressTracker ''chat'' 1 ''episode'' 5000)
     = (\<lparr>outcomes = [], nextKey = 0,
         trace = [Sock (SendMessage ''chat'' (Text (DownloadComplete 0 1 60 0))) None]\<rparr>,
        new_ProgressTracker ''chat'' 1 ''episode'' 5000, Thrown)"
  by (simp add: finish_def failing_world_def new_ProgressTracker_def deletePrevious_def
        sendMessage_def sockCall_def completion_of_def)

section \<open>The post-processing marker\<close>

lemma downloadBranch_Sample:
  assumes "downloadBranch skipAudioOnly line now since current = Sample pd"
  shows "\<exists>g sz. percentMatch line = Some g \<and> sizeMatch line = Some sz \<and> sz \<noteq> []
                \<and> progress pd = parseFloat g \<and> current < parseFloat g"
    and "str_includes line ''[download]''"
    and "\<not> str_includes line ''fragment''"
    and "skipAudioOnly \<Longrightarrow> \<not> str_includes line ''audio only''"
  using assms
  by (auto simp: downloadBranch_def Let_def or_empty_def split: if_splits option.splits)

lemma downloadBranch_no_download:
  "\<not> str_includes line ''[download]'' \<Longrightarrow> downloadBranch skipAudioOnly line now since current = NoSample"
  by (simp add: downloadBranch_def)

text \<open>
  C3, as the claim states it, fails for the video parsers: on a line that carries the
  conversion marker they hand no sample to the tracker, send nothing and leave the
  tracker as it was.
\<close>

theorem video_parser_ignores_marker:
  "youtubeSample ''[ffmpeg] Destination: song.mp3'' 105000
       (new_OptimizedProgressTracker ''chat'' 1 ''video'' 100000) = None
   \<and> parseYouTubeProgress fresh_world ''[ffmpeg] Destination: song.mp3'' 105000
       (new_OptimizedProgressTracker ''chat'' 1 ''video'' 100000)
       = (fresh_world, new_OptimizedProgressTracker ''chat'' 1 ''video'' 100000)
   \<and> parseYouTubeProgress_pt ''[ffmpeg] Destination: song.mp3'' 105000
       (new_ProgressTracker ''chat'' 1 ''video'' 100000)
       = new_ProgressTracker ''chat'' 1 ''video'' 100000"
proof -
  have "\<not> str_includes ''[ffmpeg] Destination: song.mp3'' ''[download]''"
    by simp
  then show ?thesis
    by (simp add: youtubeSample_def parseYouTubeProgress_def parseYouTubeProgress_pt_def
          downloadBranch_no_download)
qed

text \<open>
  C3, amended. The music parser is the one that knows the marker: when a line contains
  both \<open>[ffmpeg]\<close> and \<open>Destination:\<close>, and the parser does not return early on it as a
  \<open>[download]\<close> line, the last sample it hands to the tracker is the synthetic one, with
  progress 95 and total size \<open>Converting...\<close>. The video parsers hand no sample to the
  tracker for a line without \<open>[download]\<close>, marker or not.
\<close>

theorem music_parser_converting_sample:
  "(str_includes line ''[ffmpeg]'' \<and> str_includes line ''Destination:''
      \<and> downloadBranch False line now (startTime_o t) (progress (progressData t)) \<noteq> EarlyReturn
    \<longrightarrow> musicSamples line now t \<noteq> [] \<and> last (musicSamples line now t) = converting)
   \<and> progress converting = 95 \<and> total_size converting = ''Converting...''
   \<and> (\<not> str_includes line ''[download]''
      \<longrightarrow> youtubeSample line now t = None
          \<and> parseYouTubeProgress w line now t = (w, t)
          \<and> parseYouTubeProgress_pt line now t' = t')"
  by (auto simp: musicSamples_def converting_def youtubeSample_def parseYouTubeProgress_def
        parseYouTubeProgress_pt_def downloadBranch_no_download
      split: branch_result.splits)

theorem music_parser_converting_sample_witness:
  "str_includes ''[ffmpeg] Destination: song.mp3'' ''[ffmpeg]''
   \<and> str_includes ''[ffmpeg] Destination: song.mp3'' ''Destination:''
   \<and> \<not> str_includes ''[ffmpeg] Destination: song.mp3'' ''[download]''
   \<and> musicSamples ''[ffmpeg] Destination: song.mp3'' 105000
        (new_OptimizedProgressTracker ''chat'' 1 ''music'' 100000) = [converting]
   \<and> youtubeSample ''[ffmpeg] Destination: song.mp3'' 105000
        (new_OptimizedProgressTracker ''chat'' 1 ''music'' 100000) = None"
proof -
  let ?line = "''[ffmpeg] Destination: song.mp3''"
  let ?t = "new_OptimizedProgressTracker ''chat'' 1 ''music'' 100000"
  have a: "str_includes ?line ''[ffmpeg]''" and b: "str_includes ?line ''Destination:''"
    and c: "\<not> str_includes ?line ''[download]''"
    by simp_all
  have d: "downloadBranch False ?line 105000 (startTime_o ?t) (progress (progressData ?t)) \<noteq> EarlyReturn"
    using c by (simp add: downloadBranch_def)
  have e: "musicSamples ?line 105000 ?t = [converting]"
    using a b c by (simp add: musicSamples_def downloadBranch_def)
  show ?thesis
    using music_parser_converting_sample [of ?line 105000 ?t fresh_world undefined] a b c d e
    by simp
qed

section \<open>Monotonic progress\<close>

lemma parseYouTubeProgress_pt_changes:
  assumes "parseYouTubeProgress_pt line now t \<noteq> t"
  shows "\<exists>g sz. percentMatch line = Some g \<and> sizeMatch line = Some sz
                \<and> progress (youtubeProgress t) < parseFloat g
                \<and> progress (youtubeProgress (parseYouTubeProgress_pt line now t)) = parseFloat g"
proof -
  obtain pd where s: "downloadBranch True line now (startTime t) (progress (youtubeProgress t)) = Sample pd"
    using assms by (auto simp: parseYouTubeProgress_pt_def split: branch_result.splits)
  then have "parseYouTubeProgress_pt line now t = updateYouTubeProgress t pd"
    by (simp add: parseYouTubeProgress_pt_def)
  with downloadBranch_Sample(1) [OF s] show ?thesis
    by (auto simp: updateYouTubeProgress_def)
qed

lemma parseYouTubeProgress_pt_mono:
  "progress (youtubeProgress t) \<le> progress (youtubeProgress (parseYouTubeProgress_pt line now t))"
proof (cases "parseYouTubeProgress_pt line now t = t")
  case True
  then show ?thesis by simp
next
  case False
  from parseYouTubeProgress_pt_changes [OF this] show ?thesis
    by auto
qed

lemma parseYouTubeProgress_pt_noise:
  assumes "str_includes line ''fragment'' \<or> str_includes line ''audio only''"
  shows "parseYouTubeProgress_pt line now t = t"
proof (rule ccontr)
  assume "parseYouTubeProgress_pt line now t \<noteq> t"
  then obtain pd where s: "downloadBranch True line now (startTime t) (progress (youtubeProgress t)) = Sample pd"
    by (auto simp: parseYouTubeProgress_pt_def split: branch_result.splits)
  from downloadBranch_Sample(3) [OF s] downloadBranch_Sample(4) [OF s] assms show False
    by simp
qed

lemma feed_pt_sorted:
  "sorted (map (\<lambda>t. progress (youtubeProgress t)) (t # feed_pt ls t))"
proof (induction ls arbitrary: t)
  case Nil
  then show ?case by simp
next
  case (Cons l ls)
  obtain line now where l: "l = (line, now)"
    by (cases l)
  let ?t1 = "parseYouTubeProgress_pt line now t"
  have step: "progress (youtubeProgress t) \<le> progress (youtubeProgress ?t1)"
    by (rule parseYouTubeProgress_pt_mono)
  have rest: "sorted (map (\<lambda>t. progress (youtubeProgress t)) (?t1 # feed_pt ls ?t1))"
    by (rule Cons.IH)
  then have "\<forall>x \<in> set (feed_pt ls ?t1). progress (youtubeProgress ?t1) \<le> progress (youtubeProgress x)"
    by simp
  with step have "\<forall>x \<in> set (?t1 # feed_pt ls ?t1). progress (youtubeProgress t) \<le> progress (youtubeProgress x)"
    by auto
  with rest show ?case
    by (simp add: l Let_def)
qed

lemma updateProgress_progress:
  assumes "updateProgress w now pd t = (w', t', c)"
  shows "progressData t' = progressData t \<or> progressData t' = pd"
  using assms
  by (auto simp: updateProgress_def Let_def split: if_splits prod.splits option.splits)

lemma parseYouTubeProgress_changes:
  assumes "parseYouTubeProgress w line now t = (w', t')" and "(w', t') \<noteq> (w, t)"
  shows "\<exists>g sz. percentMatch line = Some g \<and> sizeMatch line = Some sz
                \<and> progress (progressData t) < parseFloat g
                \<and> (progressData t' = progressData t \<or> progress (progressData t') = parseFloat g)"
proof -
  obtain pd where s: "downloadBranch True line now (startTime_o t) (progress (progressData t)) = Sample pd"
    using assms by (auto simp: parseYouTubeProgress_def youtubeSample_def split: branch_result.splits)
  then obtain c where "updateProgress w now pd t = (w', t', c)"
    using assms(1) by (auto simp: parseYouTubeProgress_def youtubeSample_def split: prod.splits)
  from updateProgress_progress [OF this] downloadBranch_Sample(1) [OF s] show ?thesis
    by auto
qed

lemma parseYouTubeProgress_mono:
  assumes "parseYouTubeProgress w line now t = (w', t')"
  shows "progress (progressData t) \<le> progress (progressData t')"
proof (cases "(w', t') = (w, t)")
  case True
  then show ?thesis by simp
next
  case False
  from parseYouTubeProgress_changes [OF assms this] show ?thesis
    by auto
qed

lemma parseYouTubeProgress_noise:
  assumes "str_includes line ''fragment'' \<or> str_includes line ''audio only''"
  shows "parseYouTubeProgress w line now t = (w, t)"
proof -
  have "youtubeSample line now t = None"
  proof (rule ccontr)
    assume "youtubeSample line now t \<noteq> None"
    then obtain pd where s: "downloadBranch True line now (startTime_o t) (progress (progressData t)) = Sample pd"
      by (auto simp: youtubeSample_def split: branch_result.splits)
    from downloadBranch_Sample(3) [OF s] downloadBranch_Sample(4) [OF s] assms show False
      by simp
  qed
  then show ?thesis
    by (simp add: parseYouTubeProgress_def)
qed

lemma feed_o_sorted:
  "sorted (map (\<lambda>t. progress (progressData t)) (t # feed_o ls w t))"
proof (induction ls arbitrary: w t)
  case Nil
  then show ?case by simp
next
  case (Cons l ls)
  obtain line now where l: "l = (line, now)"
    by (cases l)
  obtain w1 t1 where p: "parseYouTubeProgress w line now t = (w1, t1)"
    by (cases "parseYouTubeProgress w line now t")
  have step: "progress (progressData t) \<le> progress (progressData t1)"
    by (rule parseYouTubeProgress_mono [OF p])
  have rest: "sorted (map (\<lambda>t. progress (progressData t)) (t1 # feed_o ls w1 t1))"
    by (rule Cons.IH)
  then have "\<forall>x \<in> set (feed_o ls w1 t1). progress (progressData t1) \<le> progress (progressData x)"
    by simp
  with step have "\<forall>x \<in> set (t1 # feed_o ls w1 t1). progress (progressData t) \<le> progress (progressData x)"
    by auto
  with rest show ?case
    by (simp add: l p)
qed

text \<open>
  C4. Feed any sequence of lines, read at any times, to either video parser
  (\<open>parseYouTubeProgress\<close> of the progress module on a \<open>ProgressTracker\<close>, and of the
  youtube module on an \<open>OptimizedProgressTracker\<close> over any transport): the progress
  recorded in the tracker, listed from the start and after every line, never decreases.
  A line changes anything only if it has a percentage token and a total-size token and
  its percentage is strictly above the recorded one; a line that contains \<open>fragment\<close> or
  \<open>audio only\<close> changes nothing.
\<close>

theorem progress_monotone:
  "sorted (map (\<lambda>t. progress (youtubeProgress t)) (t # feed_pt ls t))
   \<and> sorted (map (\<lambda>t. progress (progressData t)) (u # feed_o ls w u))
   \<and> (parseYouTubeProgress_pt line now t \<noteq> t
        \<longrightarrow> (\<exists>g sz. percentMatch line = Some g \<and> sizeMatch line = Some sz
                    \<and> progress (youtubeProgress t) < parseFloat g))
   \<and> (parseYouTubeProgress w line now u \<noteq> (w, u)
        \<longrightarrow> (\<exists>g sz. percentMatch line = Some g \<and> sizeMatch line = Some sz
                    \<and> progress (progressData u) < parseFloat g))
   \<and> (str_includes noise ''fragment'' \<or> str_includes noise ''audio only''
        \<longrightarrow> parseYouTubeProgress_pt noise now t = t \<and> parseYouTubeProgress w noise now u = (w, u))"
proof (intro conjI impI)
  show "sorted (map (\<lambda>t. progress (youtubeProgress t)) (t # feed_pt ls t))"
    by (rule feed_pt_sorted)
  show "sorted (map (\<lambda>t. progress (progressData t)) (u # feed_o ls w u))"
    by (rule feed_o_sorted)
next
  assume "parseYouTubeProgress_pt line now t \<noteq> t"
  from parseYouTubeProgress_pt_changes [OF this]
  show "\<exists>g sz. percentMatch line = Some g \<and> sizeMatch line = Some sz
                \<and> progress (youtubeProgress t) < parseFloat g"
    by blast
next
  assume a: "parseYouTubeProgress w line now u \<noteq> (w, u)"
  obtain w' u' where p: "parseYouTubeProgress w line now u = (w', u')"
    by (cases "parseYouTubeProgress w line now u")
  with a have "(w', u') \<noteq> (w, u)"
    by simp
  from parseYouTubeProgress_changes [OF p this]
  show "\<exists>g sz. percentMatch line = Some g \<and> sizeMatch line = Some sz
                \<and> progress (progressData u) < parseFloat g"
    by blast
next
  assume n: "str_includes noise ''fragment'' \<or> str_includes noise ''audio only''"
  show "parseYouTubeProgress_pt noise now t = t"
    by (rule parseYouTubeProgress_pt_noise [OF n])
  show "parseYouTubeProgress w noise now u = (w, u)"
    by (rule parseYouTubeProgress_noise [OF n])
qed

theorem progress_monotone_witness:
  "parseYouTubeProgress_pt ''[download] 45.3% of 10.00MiB'' 5000 episode_tracker \<noteq> episode_tracker
   \<and> parseYouTubeProgress fresh_world ''[download] 45.3% of 10.00MiB'' 5000 video_tracker
       \<noteq> (fresh_world, video_tracker)
   \<and> percentMatch ''[download] 45.3% of 10.00MiB'' = Some ''45.3''
   \<and> sizeMatch ''[download] 45.3% of 10.00MiB'' = Some ''10.00MiB''
   \<and> progress (youtubeProgress episode_tracker) < parseFloat ''45.3''
   \<and> str_includes ''[download] 50.0% of 9.00MiB (fragment 3/7)'' ''fragment''
   \<and> parseYouTubeProgress_pt ''[download] 50.0% of 9.00MiB (fragment 3/7)'' 5000 episode_tracker
       = episode_tracker
   \<and> sorted (map (\<lambda>t. progress (youtubeProgress t))
         (episode_tracker # feed_pt [(''[download] 45.3% of 10.00MiB'', 5000),
                                     (''[download] 12.0% of 10.00MiB'', 5400)] episode_tracker))"
proof -
  let ?line = "''[download] 45.3% of 10.00MiB''"
  let ?noise = "''[download] 50.0% of 9.00MiB (fragment 3/7)''"
  have a: "parseYouTubeProgress_pt ?line 5000 episode_tracker \<noteq> episode_tracker"
    by code_simp
  have b: "parseYouTubeProgress fresh_world ?line 5000 video_tracker \<noteq> (fresh_world, video_tracker)"
    by code_simp
  have c: "percentMatch ?line = Some ''45.3''" "sizeMatch ?line = Some ''10.00MiB''"
    by code_simp+
  have d: "str_includes ?noise ''fragment''"
    by code_simp
  show ?thesis
    using progress_monotone [of episode_tracker
        "[(?line, 5000), (''[download] 12.0% of 10.00MiB'', 5400)]" video_tracker fresh_world
        ?line 5000 ?noise] a b c d
    by auto
qed

section \<open>Range resolution\<close>

lemma collect_range_eq:
  "collect_range i e ns acc = acc @ filter (\<lambda>k. k \<in> set ns) [i..e]"
proof (induction i e ns acc rule: collect_range.induct)
  case (1 i e ns acc)
  show ?case
  proof (cases "i \<le> e")
    case True
    then have "[i..e] = i # [i + 1..e]"
      by (simp add: upto_rec1)
    with True 1 show ?thesis
      by (subst collect_range.simps) simp
  next
    case False
    then show ?thesis
      by (subst collect_range.simps) simp
  qed
qed

lemma parseEpisodeSelection_valid:
  assumes "parseEpisodeSelection selection available = Valid r es orr"
  shows "es \<noteq> [] \<and> set es \<subseteq> set (map number available)"
  using assms
  by (auto simp: parseEpisodeSelection_def Let_def collect_range_eq
           split: if_splits option.splits)

text \<open>
  C5. With episodes 1, 2, 3, 5 and 8 available, the selection \<open>2-6\<close> resolves to
  exactly 2, 3, 5, marked valid and as a range; the selection \<open>10-20\<close> is rejected with
  an error message. The loop over a range collects, in ascending order, the numbers of
  the closed interval that are available. No selection at all yields a valid result with
  an empty episode list, and every resolved episode is an available one.
\<close>

theorem episode_range_resolution:
  "parseEpisodeSelection ''2-6'' (mk_episodes [1, 2, 3, 5, 8]) = Valid True [2, 3, 5] (Some ''2-6'')
   \<and> parseEpisodeSelection ''10-20'' (mk_episodes [1, 2, 3, 5, 8])
       = Invalid ''No episodes found in range 10-20''
   \<and> collect_range a b ns [] = filter (\<lambda>k. k \<in> set ns) [a..b]
   \<and> (\<forall>selection available r es orr.
         parseEpisodeSelection selection available = Valid r es orr
         \<longrightarrow> es \<noteq> [] \<and> set es \<subseteq> set (map number available))"
proof (intro conjI allI impI)
  show "parseEpisodeSelection ''2-6'' (mk_episodes [1, 2, 3, 5, 8]) = Valid True [2, 3, 5] (Some ''2-6'')"
    by code_simp
  show "parseEpisodeSelection ''10-20'' (mk_episodes [1, 2, 3, 5, 8])
          = Invalid ''No episodes found in range 10-20''"
    by code_simp
  show "collect_range a b ns [] = filter (\<lambda>k. k \<in> set ns) [a..b]"
    by (simp add: collect_range_eq)
next
  fix selection available r es orr
  assume "parseEpisodeSelection selection available = Valid r es orr"
  then show "es \<noteq> []" and "set es \<subseteq> set (map number available)"
    using parseEpisodeSelection_valid by blast+
qed

theorem episode_range_resolution_witness:
  "parseEpisodeSelection ''2-6'' (mk_episodes [1, 2, 3, 5, 8]) = Valid True [2, 3, 5] (Some ''2-6'')
   \<and> [2, 3, 5 :: int] \<noteq> []
   \<and> set [2, 3, 5] \<subseteq> set (map number (mk_episodes [1, 2, 3, 5, 8]))"
proof -
  have h: "parseEpisodeSelection ''2-6'' (mk_episodes [1, 2, 3, 5, 8]) = Valid True [2, 3, 5] (Some ''2-6'')"
    using episode_range_resolution [of 0 0 "[]"] by (rule conjunct1)
  have "\<forall>selection available r es orr.
         parseEpisodeSelection selection available = Valid r es orr
         \<longrightarrow> es \<noteq> [] \<and> set es \<subseteq> set (map number available)"
    using episode_range_resolution [of 0 0 "[]"] by (elim conjE)
  with h show ?thesis
    by blast
qed

section \<open>Throttle ceiling\<close>

lemma count_list_update:
  "i < length xs \<Longrightarrow>
     length (filter P (xs[i := v])) + (if P (xs ! i) then 1 else 0)
       = length (filter P xs) + (if P v then 1 else 0)"
proof (induction xs arbitrary: i)
  case Nil
  then show ?case by simp
next
  case (Cons x xs)
  then show ?case
    by (cases i) auto
qed

lemma admit_inv:
  assumes "throttle_inv s" "i < length (phases s)" "phases s ! i \<noteq> Running"
  shows "throttle_inv (admit i s)"
proof -
  have w: "running (s\<lparr>phases := (phases s)[i := Waiting]\<rparr>) = running s"
    using count_list_update [OF assms(2), of "\<lambda>p. p = Running" Waiting] assms(3)
    by (simp add: running_def)
  have r: "running (s\<lparr>manager := m, phases := (phases s)[i := Running]\<rparr>) = running s + 1" for m
    using count_list_update [OF assms(2), of "\<lambda>p. p = Running" Running] assms(3)
    by (simp add: running_def)
  show ?thesis
    using assms(1) w r
    by (auto simp: admit_def throttle_inv_def running_def)
qed

lemma release_inv:
  assumes "throttle_inv s" "i < length (phases s)" "phases s ! i = Running"
  shows "throttle_inv (release i c s) \<and> running (release i c s) + 1 = running s"
proof -
  have "running (release i c s) + 1 = running s"
    using count_list_update [OF assms(2), of "\<lambda>p. p = Running" "Settled c"] assms(3)
    by (simp add: running_def release_def)
  then show ?thesis
    using assms(1) by (auto simp: throttle_inv_def release_def)
qed

lemma throttle_step_inv:
  assumes "throttle_inv s" "throttle_step seg s = Some s'"
  shows "throttle_inv s'"
  using assms admit_inv release_inv
  by (auto simp: throttle_step_def split: segment.splits if_splits)

lemma throttle_step_max:
  "throttle_step seg s = Some s' \<Longrightarrow> maxConcurrency (manager s') = maxConcurrency (manager s)"
  by (auto simp: throttle_step_def admit_def release_def split: segment.splits if_splits)

lemma throttle_run_inv:
  "throttle_inv s \<Longrightarrow> throttle_run segs s = Some s' \<Longrightarrow>
     throttle_inv s' \<and> maxConcurrency (manager s') = maxConcurrency (manager s)"
proof (induction segs arbitrary: s)
  case Nil
  then show ?case by simp
next
  case (Cons seg segs)
  then obtain s1 where s1: "throttle_step seg s = Some s1" "throttle_run segs s1 = Some s'"
    by (auto split: option.splits)
  with Cons show ?case
    using throttle_step_inv throttle_step_max by metis
qed

lemma throttle_init_inv:
  "activeOperations pm = 0 \<Longrightarrow> 0 \<le> maxConcurrency pm \<Longrightarrow> throttle_inv (throttle_init pm n)"
  by (simp add: throttle_inv_def throttle_init_def running_def)

lemma release_decrements:
  "activeOperations (manager (release i c s)) = activeOperations (manager s) - 1"
  by (simp add: release_def)

text \<open>
  C6. Start any number of calls of \<open>throttleOperation\<close> on a manager with no active
  operation and let the event loop run their segments in any order. In every state
  reached, the active-operation count is the number of operations that are running, and
  it does not exceed the configured maximum (10 for the manager the module creates).
  Whenever a running operation settles, whether it is fulfilled or it throws, the count
  goes down by one; once no operation is running any more the count is back at zero.
\<close>

theorem throttle_ceiling:
  assumes "throttle_run segs (throttle_init pm n) = Some s"
    and "activeOperations pm = 0" and "0 \<le> maxConcurrency pm"
  shows "activeOperations (manager s) = int (running s)
         \<and> activeOperations (manager s) \<le> maxConcurrency pm
         \<and> (pm = new_PerformanceManager \<longrightarrow> running s \<le> 10)
         \<and> (\<forall>i s'. throttle_step (Fulfil i) s = Some s'
               \<longrightarrow> activeOperations (manager s') = activeOperations (manager s) - 1
                   \<and> running s' + 1 = running s)
         \<and> (\<forall>i s'. throttle_step (Reject i) s = Some s'
               \<longrightarrow> activeOperations (manager s') = activeOperations (manager s) - 1
                   \<and> running s' + 1 = running s)
         \<and> (running s = 0 \<longrightarrow> activeOperations (manager s) = 0)"
proof -
  have inv: "throttle_inv s"
    and mx: "maxConcurrency (manager s) = maxConcurrency pm"
    using throttle_run_inv [OF throttle_init_inv [OF assms(2,3)] assms(1)]
    by (simp_all add: throttle_init_def)
  have a: "activeOperations (manager s) = int (running s)"
    and b: "activeOperations (manager s) \<le> maxConcurrency pm"
    using inv mx by (simp_all add: throttle_inv_def)
  have c: "pm = new_PerformanceManager \<longrightarrow> running s \<le> 10"
    using a b by (auto simp: new_PerformanceManager_def)
  have d: "activeOperations (manager s') = activeOperations (manager s) - 1
           \<and> running s' + 1 = running s"
    if "throttle_step (Fulfil i) s = Some s' \<or> throttle_step (Reject i) s = Some s'" for i s'
    using that release_inv [OF inv] release_decrements
    by (auto simp: throttle_step_def split: if_splits)
  show ?thesis
    using a b c d by auto
qed

theorem throttle_ceiling_witness:
  "throttle_run [Enter 0, Enter 1, Reject 0] (throttle_init new_PerformanceManager 2)
     = Some \<lparr>manager = \<lparr>maxConcurrency = 10, activeOperations = 1\<rparr>,
            phases = [Settled Thrown, Running]\<rparr>
   \<and> activeOperations new_PerformanceManager = 0
   \<and> 0 \<le> maxConcurrency new_PerformanceManager
   \<and> running \<lparr>manager = \<lparr>maxConcurrency = 10, activeOperations = 1\<rparr>,
              phases = [Settled Thrown, Running]\<rparr> \<le> 10"
proof -
  have r: "throttle_run [Enter 0, Enter 1, Reject 0] (throttle_init new_PerformanceManager 2)
     = Some \<lparr>manager = \<lparr>maxConcurrency = 10, activeOperations = 1\<rparr>,
            phases = [Settled Thrown, Running]\<rparr>"
    by (simp add: throttle_init_def new_PerformanceManager_def throttle_step_def admit_def
          release_def numeral_2_eq_2)
  have z: "activeOperations new_PerformanceManager = 0" "0 \<le> maxConcurrency new_PerformanceManager"
    by (simp_all add: new_PerformanceManager_def)
  show ?thesis
    using throttle_ceiling [OF r z] r z by simp
qed

section \<open>Debounced updates\<close>



lemma start_o_example:
  "start_o fresh_world video_tracker = (started_world, started_tracker, Returned)"
  by (simp add: start_o_def fresh_world_def video_tracker_def started_world_def
        started_tracker_def new_OptimizedProgressTracker_def sendMessage_def sockCall_def)










section \<open>At most one live message\<close>

















section \<open>Ordered delivery of search results\<close>

lemma prepareFrom_index:
  "map index (prepareFrom e i vs) = [i..<i + length vs]"
proof (induction vs arbitrary: i)
  case Nil
  then show ?case by simp
next
  case (Cons v vs)
  have "[i..<i + length (v # vs)] = i # [Suc i..<Suc i + length vs]"
    by (simp add: upt_rec)
  with Cons show ?case
    by simp
qed

lemma prepareFrom_nth:
  "k < length vs \<Longrightarrow>
     prepareFrom e i vs ! k
       = \<lparr>index = i + k, videoText = ResultCard (i + k + 1) (vs ! k),
          thumbnailBuffer = downloadImage e (item_thumbnail (vs ! k))\<rparr>"
proof (induction vs arbitrary: i k)
  case Nil
  then show ?case by simp
next
  case (Cons v vs)
  then show ?case
    by (cases k) simp_all
qed

lemma length_prepareFrom: "length (prepareFrom e i vs) = length vs"
  by (induction vs arbitrary: i) simp_all

lemma filter_same_key:
  assumes "distinct (map f ys)" and "k \<in> set ys"
  shows "filter (\<lambda>x. f k = f x) ys = [k]"
  using assms
proof (induction ys)
  case Nil
  then show ?case by simp
next
  case (Cons y ys)
  show ?case
  proof (cases "k = y")
    case True
    have "filter (\<lambda>x. f y = f x) ys = []"
      using Cons.prems(1) by (auto simp: filter_empty_conv)
    with True show ?thesis by simp
  next
    case False
    with Cons.prems have "k \<in> set ys"
      by simp
    moreover from this Cons.prems(1) have "f k \<noteq> f y"
      by (auto simp: image_iff)
    ultimately have "k \<in> set ys" and "f k \<noteq> f y" .
    with Cons show ?thesis
      by simp
  qed
qed

lemma sort_prepared:
  assumes "mset videoData = mset (prepareVideoData e videos)"
  shows "sort_key index videoData = prepareVideoData e videos"
proof (rule properties_for_sort_key)
  let ?ys = "prepareVideoData e videos"
  have ix: "map index ?ys = [0..<length videos]"
    by (simp add: prepareVideoData_def prepareFrom_index)
  show "mset ?ys = mset videoData"
    using assms by simp
  show "sorted (map index ?ys)"
    by (simp add: ix)
  have d: "distinct (map index ?ys)"
    by (simp add: ix)
  fix k
  assume k: "k \<in> set ?ys"
  have "mset (filter (\<lambda>x. index k = index x) videoData)
          = mset (filter (\<lambda>x. index k = index x) ?ys)"
    by (simp add: assms)
  also have "\<dots> = {#k#}"
    by (simp only: filter_same_key [OF d k]) simp
  finally have "filter (\<lambda>x. index k = index x) videoData = [k]"
    by (simp only: mset_single_iff)
  with filter_same_key [OF d k]
  show "filter (\<lambda>x. index k = index x) ?ys = filter (\<lambda>x. index k = index x) videoData"
    by simp
qed

lemma delivered_of_append: "delivered_of (xs @ ys) = delivered_of xs @ delivered_of ys"
  by (simp add: delivered_of_def)

lemma delivered_of_simps:
  "delivered_of [] = []"
  "delivered_of (Sock (SendMessage j c) (Some k) # evs) = c # delivered_of evs"
  "delivered_of (Sock (SendMessage j c) None # evs) = delivered_of evs"
  "delivered_of (Sock (SendPresenceUpdate p j) r # evs) = delivered_of evs"
  "delivered_of (Ext x # evs) = delivered_of evs"
  by (simp_all add: delivered_of_def)

lemma sendMessage_quiet:
  assumes "quiet w"
  shows "\<exists>w' k. sendMessage w j c = (w', Some k) \<and> quiet w' \<and> delivered w' = delivered w @ [c]"
proof -
  have "set (tl (outcomes w)) \<subseteq> set (outcomes w)"
    by (cases "outcomes w") auto
  with assms show ?thesis
    by (auto simp: sendMessage_def sockCall_def quiet_def delivered_def delivered_of_append
          delivered_of_simps split: list.splits bool.splits)
qed

lemma sendMessage_delivered:
  assumes "sendMessage w j c = (w', r)"
  shows "delivered w' = delivered w @ (case r of Some _ \<Rightarrow> [c] | None \<Rightarrow> [])"
  using trace_sendMessage [OF assms]
  by (cases r) (simp_all add: delivered_def delivered_of_append delivered_of_simps)

lemma sendEach_quiet:
  "quiet w \<Longrightarrow>
     \<exists>w'. sendEach w j ds = (w', True) \<and> quiet w' \<and> delivered w' = delivered w @ map card_for ds"
proof (induction ds arbitrary: w)
  case Nil
  then show ?case by simp
next
  case (Cons d ds)
  from sendMessage_quiet [OF Cons.prems, of j "card_for d"]
  obtain w1 k where s: "sendMessage w j (card_for d) = (w1, Some k)" and q: "quiet w1"
    and dl: "delivered w1 = delivered w @ [card_for d]"
    by blast
  from Cons.IH [OF q] obtain w' where r: "sendEach w1 j ds = (w', True)" and q': "quiet w'"
    and dl': "delivered w' = delivered w1 @ map card_for ds"
    by blast
  have "sendEach w j (d # ds) = (w', True)"
    using s r by (cases "thumbnailBuffer d") (simp_all add: card_for_def)
  with q' dl dl' show ?case
    by simp
qed

text \<open>Over any transport: what \<open>sendEach\<close> delivers is, item by item from the first, the
  card with the thumbnail or the card as text, up to the item at which it stops.\<close>

lemma sendEach_prefix:
  "\<exists>cs. delivered (fst (sendEach w j ds)) = delivered w @ cs
        \<and> length cs \<le> length ds
        \<and> (snd (sendEach w j ds) \<longrightarrow> length cs = length ds)
        \<and> (\<forall>i < length cs. cs ! i = card_for (ds ! i) \<or> cs ! i = Text (videoText (ds ! i)))"
proof (induction ds arbitrary: w)
  case Nil
  then show ?case by simp
next
  case (Cons d ds)
  obtain w1 r1 where s1: "sendMessage w j (card_for d) = (w1, r1)"
    by (cases "sendMessage w j (card_for d)")
  have first: "(case thumbnailBuffer d of
                  Some b \<Rightarrow> sendMessage w j (Image b (videoText d))
                | None \<Rightarrow> sendMessage w j (Text (videoText d))) = (w1, r1)"
    using s1 by (cases "thumbnailBuffer d") (simp_all add: card_for_def)
  show ?case
  proof (cases r1)
    case (Some k)
    from Cons.IH [of w1] obtain cs where
      a: "delivered (fst (sendEach w1 j ds)) = delivered w1 @ cs" "length cs \<le> length ds"
        "snd (sendEach w1 j ds) \<longrightarrow> length cs = length ds"
        "\<forall>i < length cs. cs ! i = card_for (ds ! i) \<or> cs ! i = Text (videoText (ds ! i))"
      by blast
    have e: "sendEach w j (d # ds) = sendEach w1 j ds"
      using first Some by simp
    have d1: "delivered w1 = delivered w @ [card_for d]"
      using sendMessage_delivered [OF s1] Some by simp
    have "\<forall>i < length (card_for d # cs).
            (card_for d # cs) ! i = card_for ((d # ds) ! i)
            \<or> (card_for d # cs) ! i = Text (videoText ((d # ds) ! i))"
      using a(4) by (auto simp: nth_Cons split: nat.splits)
    with a d1 e show ?thesis
      by (intro exI [of _ "card_for d # cs"]) simp
  next
    case None
    obtain w2 r2 where s2: "sendMessage w1 j (Text (videoText d)) = (w2, r2)"
      by (cases "sendMessage w1 j (Text (videoText d))")
    have d1: "delivered w1 = delivered w"
      using sendMessage_delivered [OF s1] None by simp
    show ?thesis
    proof (cases r2)
      case (Some k)
      from Cons.IH [of w2] obtain cs where
        a: "delivered (fst (sendEach w2 j ds)) = delivered w2 @ cs" "length cs \<le> length ds"
          "snd (sendEach w2 j ds) \<longrightarrow> length cs = length ds"
          "\<forall>i < length cs. cs ! i = card_for (ds ! i) \<or> cs ! i = Text (videoText (ds ! i))"
        by blast
      have e: "sendEach w j (d # ds) = sendEach w2 j ds"
        using first None s2 Some by simp
      have d2: "delivered w2 = delivered w @ [Text (videoText d)]"
        using sendMessage_delivered [OF s2] Some d1 by simp
      have "\<forall>i < length (Text (videoText d) # cs).
              (Text (videoText d) # cs) ! i = card_for ((d # ds) ! i)
              \<or> (Text (videoText d) # cs) ! i = Text (videoText ((d # ds) ! i))"
        using a(4) by (auto simp: nth_Cons split: nat.splits)
      with a d2 e show ?thesis
        by (intro exI [of _ "Text (videoText d) # cs"]) simp
    next
      case None': None
      have e: "sendEach w j (d # ds) = (w2, False)"
        using first None s2 None' by simp
      have d2: "delivered w2 = delivered w"
        using sendMessage_delivered [OF s2] None' d1 by simp
      show ?thesis
        using e d2 by (intro exI [of _ "[]"]) simp
    qed
  qed
qed

lemma deliverVideoData_quiet:
  assumes "quiet w" and "mset videoData = mset (prepareVideoData e videos)"
  shows "\<exists>w'. deliverVideoData w j n videoData = (w', Returned) \<and> quiet w'
           \<and> delivered w' = delivered w @ map card_for (prepareVideoData e videos) @ [Text (AllLoaded n)]"
proof -
  from sendEach_quiet [OF assms(1), of j "prepareVideoData e videos"]
  obtain w1 where a: "sendEach w j (prepareVideoData e videos) = (w1, True)" and q: "quiet w1"
    and d: "delivered w1 = delivered w @ map card_for (prepareVideoData e videos)"
    by blast
  from sendMessage_quiet [OF q, of j "Text (AllLoaded n)"]
  obtain w2 k where b: "sendMessage w1 j (Text (AllLoaded n)) = (w2, Some k)" and q2: "quiet w2"
    and d2: "delivered w2 = delivered w1 @ [Text (AllLoaded n)]"
    by blast
  have "deliverVideoData w j n videoData = (w2, Returned)"
    by (simp add: deliverVideoData_def sort_prepared [OF assms(2)] a b)
  with q2 d d2 show ?thesis
    by simp
qed

lemma card_numbers_append: "card_numbers (xs @ ys) = card_numbers xs @ card_numbers ys"
  by (simp add: card_numbers_def)

lemma card_numbers_run:
  "\<forall>i < length cs. card_number (cs ! i) = Some (Suc i) \<Longrightarrow> card_numbers cs = [1..<Suc (length cs)]"
proof (induction cs rule: rev_induct)
  case Nil
  then show ?case by (simp add: card_numbers_def)
next
  case (snoc c cs)
  have "\<forall>i < length cs. card_number (cs ! i) = Some (Suc i)"
  proof (intro allI impI)
    fix i
    assume i: "i < length cs"
    with snoc.prems have "card_number ((cs @ [c]) ! i) = Some (Suc i)"
      by simp
    with i show "card_number (cs ! i) = Some (Suc i)"
      by (simp add: nth_append)
  qed
  with snoc.IH have "card_numbers cs = [1..<Suc (length cs)]"
    by blast
  moreover from snoc.prems have "card_number c = Some (Suc (length cs))"
    by (metis length_append_singleton lessI nth_append_length)
  then have "card_numbers [c] = [Suc (length cs)]"
    by (simp add: card_numbers_def)
  ultimately show ?case
    by (simp add: card_numbers_append)
qed

lemma card_for_prepared:
  assumes "i < length videos"
  shows "card_for (prepareVideoData e videos ! i)
           = (case downloadImage e (item_thumbnail (videos ! i)) of
                Some b \<Rightarrow> Image b (ResultCard (i + 1) (videos ! i))
              | None \<Rightarrow> Text (ResultCard (i + 1) (videos ! i)))"
    and "videoText (prepareVideoData e videos ! i) = ResultCard (i + 1) (videos ! i)"
  using assms
  by (simp_all add: prepareVideoData_def prepareFrom_nth card_for_def split: option.splits)

lemma deliverVideoData_numbers:
  assumes "mset videoData = mset (prepareVideoData e videos)"
  shows "\<exists>k \<le> length videos.
           card_numbers (delivered (fst (deliverVideoData w j n videoData)))
             = card_numbers (delivered w) @ [1..<Suc k]"
proof -
  let ?ds = "prepareVideoData e videos"
  have len: "length ?ds = length videos"
    by (simp add: prepareVideoData_def length_prepareFrom)
  from sendEach_prefix [of w j ?ds] obtain cs where
    a: "delivered (fst (sendEach w j ?ds)) = delivered w @ cs" "length cs \<le> length ?ds"
      "\<forall>i < length cs. cs ! i = card_for (?ds ! i) \<or> cs ! i = Text (videoText (?ds ! i))"
    by blast
  have "\<forall>i < length cs. card_number (cs ! i) = Some (Suc i)"
  proof (intro allI impI)
    fix i
    assume i: "i < length cs"
    with a(2) len have iv: "i < length videos"
      by simp
    from a(3) i have "cs ! i = card_for (?ds ! i) \<or> cs ! i = Text (videoText (?ds ! i))"
      by blast
    then show "card_number (cs ! i) = Some (Suc i)"
      using card_for_prepared [OF iv, of e]
      by (auto simp: card_number_def split: option.splits)
  qed
  then have cn: "card_numbers cs = [1..<Suc (length cs)]"
    by (rule card_numbers_run)
  obtain w1 ok where s: "sendEach w j ?ds = (w1, ok)"
    by (cases "sendEach w j ?ds")
  have d1: "delivered w1 = delivered w @ cs"
    using a(1) s by simp
  have "\<exists>m. delivered (fst (deliverVideoData w j n videoData)) = delivered w1 @ m \<and> card_numbers m = []"
  proof (cases ok)
    case True
    obtain w2 r where s2: "sendMessage w1 j (Text (AllLoaded n)) = (w2, r)"
      by (cases "sendMessage w1 j (Text (AllLoaded n))")
    obtain w3 r3 where s3: "sendMessage w2 j (Text ErrorDisplaying) = (w3, r3)"
      by (cases "sendMessage w2 j (Text ErrorDisplaying)")
    show ?thesis
      using True s s2 s3 sendMessage_delivered [OF s2] sendMessage_delivered [OF s3]
      by (cases r; cases r3)
         (auto simp: deliverVideoData_def sort_prepared [OF assms] card_numbers_def card_number_def)
  next
    case False
    obtain w3 r3 where s3: "sendMessage w1 j (Text ErrorDisplaying) = (w3, r3)"
      by (cases "sendMessage w1 j (Text ErrorDisplaying)")
    show ?thesis
      using False s s3 sendMessage_delivered [OF s3]
      by (cases r3)
         (auto simp: deliverVideoData_def sort_prepared [OF assms] card_numbers_def card_number_def)
  qed
  then obtain m where
    "delivered (fst (deliverVideoData w j n videoData)) = delivered w @ cs @ m" "card_numbers m = []"
    using d1 by auto
  then have "card_numbers (delivered (fst (deliverVideoData w j n videoData)))
               = card_numbers (delivered w) @ [1..<Suc (length cs)]"
    by (simp add: card_numbers_append cn)
  with a(2) len show ?thesis
    by auto
qed

lemma send_results_quiet:
  assumes "quiet w"
  shows "delivered (fst (sendVideoSearchResults w e j videos))
           = delivered w @ [Text (FoundVideos (length videos))]
               @ map card_for (prepareVideoData e videos) @ [Text (AllLoaded (length videos))]"
    and "delivered (fst (sendChannelLatestVideos w e j videos title))
           = delivered w @ [Text (LatestFrom (length videos) title)]
               @ map card_for (prepareVideoData e videos) @ [Text (AllLoaded (length videos))]"
proof -
  from sendMessage_quiet [OF assms, of j "Text (FoundVideos (length videos))"]
  obtain w1 k where a: "sendMessage w j (Text (FoundVideos (length videos))) = (w1, Some k)"
    and q: "quiet w1" and d: "delivered w1 = delivered w @ [Text (FoundVideos (length videos))]"
    by blast
  from deliverVideoData_quiet [OF q, where videoData = "prepareVideoData e videos" and e = e
      and videos = videos and j = j and n = "length videos"] a d
  show "delivered (fst (sendVideoSearchResults w e j videos))
           = delivered w @ [Text (FoundVideos (length videos))]
               @ map card_for (prepareVideoData e videos) @ [Text (AllLoaded (length videos))]"
    by (auto simp: sendVideoSearchResults_def)
next
  from sendMessage_quiet [OF assms, of j "Text (LatestFrom (length videos) title)"]
  obtain w1 k where a: "sendMessage w j (Text (LatestFrom (length videos) title)) = (w1, Some k)"
    and q: "quiet w1" and d: "delivered w1 = delivered w @ [Text (LatestFrom (length videos) title)]"
    by blast
  from deliverVideoData_quiet [OF q, where videoData = "prepareVideoData e videos" and e = e
      and videos = videos and j = j and n = "length videos"] a d
  show "delivered (fst (sendChannelLatestVideos w e j videos title))
           = delivered w @ [Text (LatestFrom (length videos) title)]
               @ map card_for (prepareVideoData e videos) @ [Text (AllLoaded (length videos))]"
    by (auto simp: sendChannelLatestVideos_def)
qed

text \<open>
  C9. Whatever order the prepared items come in (any rearrangement of the list the
  preparation yields), they are sorted by index before sending. On a transport that does
  not throw, what is delivered is: the heading, then one message per item in the order of
  the input list, then the closing instructions. The message of item \<open>i\<close> carries number
  \<open>i + 1\<close>; it is the image with caption when the thumbnail was fetched and the text alone
  when the fetch failed, so no item is left out. On any transport the numbers of the
  cards delivered are \<open>1, 2, ..., k\<close> for some \<open>k\<close>: ascending, without gap or repetition.
\<close>

theorem ordered_delivery:
  "(mset videoData = mset (prepareVideoData e videos) \<and> quiet w
      \<longrightarrow> delivered (fst (deliverVideoData w j (length videos) videoData))
          = delivered w @ map card_for (prepareVideoData e videos) @ [Text (AllLoaded (length videos))])
   \<and> (quiet w
      \<longrightarrow> delivered (fst (sendVideoSearchResults w e j videos))
            = delivered w @ [Text (FoundVideos (length videos))]
                @ map card_for (prepareVideoData e videos) @ [Text (AllLoaded (length videos))]
          \<and> delivered (fst (sendChannelLatestVideos w e j videos title))
            = delivered w @ [Text (LatestFrom (length videos) title)]
                @ map card_for (prepareVideoData e videos) @ [Text (AllLoaded (length videos))])
   \<and> length (prepareVideoData e videos) = length videos
   \<and> (i < length videos
      \<longrightarrow> card_for (prepareVideoData e videos ! i)
          = (case downloadImage e (item_thumbnail (videos ! i)) of
               Some b \<Rightarrow> Image b (ResultCard (i + 1) (videos ! i))
             | None \<Rightarrow> Text (ResultCard (i + 1) (videos ! i))))
   \<and> (mset videoData = mset (prepareVideoData e videos)
      \<longrightarrow> (\<exists>k \<le> length videos.
             card_numbers (delivered (fst (deliverVideoData w j (length videos) videoData)))
               = card_numbers (delivered w) @ [1..<Suc k]))"
proof (intro conjI impI)
  assume "mset videoData = mset (prepareVideoData e videos) \<and> quiet w"
  then show "delivered (fst (deliverVideoData w j (length videos) videoData))
          = delivered w @ map card_for (prepareVideoData e videos) @ [Text (AllLoaded (length videos))]"
    using deliverVideoData_quiet [of w videoData e videos j "length videos"] by auto
next
  assume q: "quiet w"
  show "delivered (fst (sendVideoSearchResults w e j videos))
            = delivered w @ [Text (FoundVideos (length videos))]
                @ map card_for (prepareVideoData e videos) @ [Text (AllLoaded (length videos))]"
    by (rule send_results_quiet(1) [OF q])
  show "delivered (fst (sendChannelLatestVideos w e j videos title))
            = delivered w @ [Text (LatestFrom (length videos) title)]
                @ map card_for (prepareVideoData e videos) @ [Text (AllLoaded (length videos))]"
    by (rule send_results_quiet(2) [OF q])
next
  show "length (prepareVideoData e videos) = length videos"
    by (simp add: prepareVideoData_def length_prepareFrom)
next
  assume "i < length videos"
  then show "card_for (prepareVideoData e videos ! i)
          = (case downloadImage e (item_thumbnail (videos ! i)) of
               Some b \<Rightarrow> Image b (ResultCard (i + 1) (videos ! i))
             | None \<Rightarrow> Text (ResultCard (i + 1) (videos ! i)))"
    by (rule card_for_prepared(1))
next
  assume "mset videoData = mset (prepareVideoData e videos)"
  then show "\<exists>k \<le> length videos.
             card_numbers (delivered (fst (deliverVideoData w j (length videos) videoData)))
               = card_numbers (delivered w) @ [1..<Suc k]"
    by (rule deliverVideoData_numbers)
qed


theorem ordered_delivery_witness:
  "mset (rev (prepareVideoData thumb_env [video_no 1, video_no 2, video_no 3]))
     = mset (prepareVideoData thumb_env [video_no 1, video_no 2, video_no 3])
   \<and> quiet fresh_world
   \<and> (1 :: nat) < length [video_no 1, video_no 2, video_no 3]
   \<and> delivered (fst (deliverVideoData fresh_world ''chat'' 3
                         (rev (prepareVideoData thumb_env [video_no 1, video_no 2, video_no 3]))))
       = [Image ''jpeg:thumb1'' (ResultCard 1 (video_no 1)), Text (ResultCard 2 (video_no 2)),
          Image ''jpeg:thumb3'' (ResultCard 3 (video_no 3)), Text (AllLoaded 3)]
   \<and> card_for (prepareVideoData thumb_env [video_no 1, video_no 2, video_no 3] ! 1)
       = Text (ResultCard 2 (video_no 2))"
proof -
  let ?vs = "[video_no 1, video_no 2, video_no 3]"
  have a: "mset (rev (prepareVideoData thumb_env ?vs)) = mset (prepareVideoData thumb_env ?vs)"
    by simp
  have b: "quiet fresh_world"
    by (simp add: quiet_def fresh_world_def)
  have c: "(1 :: nat) < length ?vs"
    by simp
  have d: "delivered fresh_world = []"
    by (simp add: delivered_def fresh_world_def delivered_of_simps)
  have e: "map card_for (prepareVideoData thumb_env ?vs)
             = [Image ''jpeg:thumb1'' (ResultCard 1 (video_no 1)), Text (ResultCard 2 (video_no 2)),
                Image ''jpeg:thumb3'' (ResultCard 3 (video_no 3))]"
    by code_simp
  have f: "downloadImage thumb_env (item_thumbnail (?vs ! 1)) = None"
    by code_simp
  show ?thesis
    using ordered_delivery [where videoData = "rev (prepareVideoData thumb_env ?vs)"
        and e = thumb_env and videos = ?vs and w = fresh_world and j = "''chat''" and i = 1]
      a b c d e f
    by (simp add: numeral_2_eq_2 numeral_3_eq_3)
qed
section \<open>Number of channel videos requested\<close>

lemma digit_not_space: "isDigit c \<Longrightarrow> \<not> isSpace c"
  by (auto simp: isDigit_def isSpace_def)

lemma dropWhile_head: "s \<noteq> [] \<Longrightarrow> \<not> P (hd s) \<Longrightarrow> dropWhile P s = s"
  by (cases s) simp_all

lemma trim_digits_ends:
  assumes "s \<noteq> []" and "isDigit (hd s)" and "isDigit (last s)"
  shows "trim s = s"
proof -
  have a: "dropWhile isSpace s = s"
    using assms(1,2) by (intro dropWhile_head) (simp_all add: digit_not_space)
  have "hd (rev s) = last s"
    using assms(1) by (simp add: hd_rev)
  then have "dropWhile isSpace (rev s) = rev s"
    using assms(1,3) by (intro dropWhile_head) (simp_all add: digit_not_space)
  with a show ?thesis
    by (simp add: trim_def)
qed

lemma split_ws_from_nonempty: "split_ws_from b s \<noteq> []"
  by (induction s arbitrary: b) (auto split: list.splits)

lemma split_ws_word_False:
  "list_all (\<lambda>c. \<not> isSpace c) a \<Longrightarrow>
     split_ws_from False (a @ rest)
       = (a @ hd (split_ws_from False rest)) # tl (split_ws_from False rest)"
proof (induction a)
  case Nil
  then show ?case
    using split_ws_from_nonempty [of False rest] by (cases "split_ws_from False rest") simp_all
next
  case (Cons c a)
  then show ?case
    using split_ws_from_nonempty [of False "a @ rest"]
    by (cases "split_ws_from False (a @ rest)") simp_all
qed

lemma split_ws_spaces:
  "list_all isSpace ws \<Longrightarrow> split_ws_from True (ws @ rest) = split_ws_from True rest"
  by (induction ws) simp_all

lemma split_ws_True_word:
  "s \<noteq> [] \<Longrightarrow> \<not> isSpace (hd s) \<Longrightarrow> split_ws_from True s = split_ws_from False s"
  by (cases s) simp_all

lemma digits_no_space: "list_all isDigit s \<Longrightarrow> list_all (\<lambda>c. \<not> isSpace c) s"
  by (induction s) (simp_all add: digit_not_space)

lemma split_ws_one:
  assumes "re_digits a"
  shows "split_ws (trim a) = [a]"
proof -
  from assms have ne: "a \<noteq> []" and d: "list_all isDigit a"
    by (simp_all add: re_digits_def)
  then have "isDigit (hd a)" and "isDigit (last a)"
    by (simp_all add: list_all_iff)
  with ne have "trim a = a"
    by (intro trim_digits_ends)
  moreover have "split_ws_from False (a @ []) = [a]"
    using split_ws_word_False [OF digits_no_space [OF d], of "[]"] by simp
  ultimately show ?thesis
    by (simp add: split_ws_def)
qed

lemma split_ws_two:
  assumes "re_digits a" and "ws \<noteq> []" and "list_all isSpace ws" and "re_digits b"
  shows "split_ws (trim (a @ ws @ b)) = [a, b]"
proof -
  from assms have ne: "a \<noteq> []" "b \<noteq> []" and d: "list_all isDigit a" "list_all isDigit b"
    by (simp_all add: re_digits_def)
  then have "isDigit (hd (a @ ws @ b))" and "isDigit (last (a @ ws @ b))"
    by (simp_all add: list_all_iff)
  then have t: "trim (a @ ws @ b) = a @ ws @ b"
    using ne by (intro trim_digits_ends) simp_all
  obtain c ws' where ws: "ws = c # ws'"
    using assms(2) by (cases ws) auto
  with assms(3) have c: "isSpace c" and ws': "list_all isSpace ws'"
    by simp_all
  have hb: "\<not> isSpace (hd b)"
    using ne(2) d(2) by (simp add: list_all_iff digit_not_space)
  have "split_ws_from False (b @ []) = [b]"
    using split_ws_word_False [OF digits_no_space [OF d(2)], of "[]"] by simp
  then have "split_ws_from True b = [b]"
    using split_ws_True_word [OF ne(2) hb] by simp
  then have "split_ws_from True (ws' @ b) = [b]"
    using split_ws_spaces [OF ws'] by simp
  then have "split_ws_from False (ws @ b) = [[], b]"
    using c by (simp add: ws)
  then have "split_ws_from False (a @ ws @ b) = [a, b]"
    using split_ws_word_False [OF digits_no_space [OF d(1)], of "ws @ b"] by simp
  with t show ?thesis
    by (simp add: split_ws_def)
qed

lemma hexVal_digit: "isDigit c \<Longrightarrow> hexVal c = Some (digitVal c)"
  by (simp add: hexVal_def)

lemma foldl_digits:
  "list_all isDigit s \<Longrightarrow>
     foldl (\<lambda>a c. a * 10 + the (hexVal c)) v s = foldl (\<lambda>a c. a * 10 + digitVal c) v s"
  by (induction s arbitrary: v) (simp_all add: hexVal_digit)

lemma parseInt_digits:
  assumes "re_digits s"
  shows "parseInt s = Some (int (decimalValue s))"
proof -
  from assms obtain c r where s: "s = c # r" and c: "isDigit c" and d: "list_all isDigit s"
    by (cases s) (auto simp: re_digits_def)
  have nx: "\<not> isDigit CHR ''x''" "\<not> isDigit CHR ''X''" "\<not> isDigit CHR ''-''" "\<not> isDigit CHR ''+''"
    by (simp_all add: isDigit_def)
  have sg: "c \<noteq> CHR ''-''" "c \<noteq> CHR ''+''"
    using c nx by auto
  have n1: "(case s of c # _ \<Rightarrow> c = CHR ''-'' | [] \<Rightarrow> False) = False"
    using sg by (simp add: s)
  have n2: "(case s of c # r \<Rightarrow> (if c = CHR ''-'' \<or> c = CHR ''+'' then r else s) | [] \<Rightarrow> s) = s"
    using sg by (simp add: s)
  have hx: "(prefix ''0x'' s \<or> prefix ''0X'' s) = False"
    using d nx by (auto simp: s prefix_def)
  have tk: "takeWhile isDigit s = s"
    using d by (simp add: list_all_iff)
  have dw: "dropWhile isSpace s = s"
    using c by (simp add: s digit_not_space)
  have ne: "s \<noteq> []"
    by (simp add: s)
  show ?thesis
    unfolding parseInt_def Let_def dw n1 n2 hx tk
    using ne foldl_digits [OF d, of 0]
    by (simp add: decimalValue_def tk)
qed

lemma videoCount_default:
  "re_digits a \<Longrightarrow> videoCountOf (split_ws (trim a)) = Some 10"
  by (simp add: split_ws_one videoCountOf_def)

lemma videoCount_capped:
  assumes "re_digits a" and "ws \<noteq> []" and "list_all isSpace ws" and "re_digits b"
  shows "videoCountOf (split_ws (trim (a @ ws @ b))) = Some (min (int (decimalValue b)) 20)"
  by (simp add: split_ws_two [OF assms] videoCountOf_def parseInt_digits [OF assms(4)])

lemma re_channel_reply_forms:
  assumes "re_channel_reply s"
  shows "re_digits s
         \<or> (\<exists>a ws b. s = a @ ws @ b \<and> re_digits a \<and> ws \<noteq> [] \<and> list_all isSpace ws \<and> re_digits b)"
proof -
  let ?a = "takeWhile isDigit s" and ?r = "dropWhile isDigit s"
  let ?ws = "takeWhile isSpace ?r" and ?b = "dropWhile isSpace ?r"
  have s: "s = ?a @ ?r" and r: "?r = ?ws @ ?b"
    by simp_all
  have a: "list_all isDigit ?a" and w: "list_all isSpace ?ws"
    by (simp_all add: list_all_iff) (metis set_takeWhileD)+
  from assms have ne: "?a \<noteq> []" and alt: "?r = [] \<or> (?ws \<noteq> [] \<and> re_digits ?b)"
    by (simp_all add: re_channel_reply_def Let_def)
  from alt show ?thesis
  proof
    assume "?r = []"
    with s have "s = ?a"
      by (metis append_Nil2)
    with a ne show ?thesis
      by (metis re_digits_def)
  next
    assume "?ws \<noteq> [] \<and> re_digits ?b"
    moreover have "s = ?a @ ?ws @ ?b"
      using s r by metis
    ultimately show ?thesis
      using a ne w by (metis re_digits_def)
  qed
qed


lemma ext_calls_of_append: "ext_calls_of (xs @ ys) = ext_calls_of xs @ ext_calls_of ys"
  by (simp add: ext_calls_of_def)

lemma ext_calls_sockCall: "ext_calls (fst (sockCall w c)) = ext_calls w"
  by (simp add: ext_calls_def trace_sockCall ext_calls_of_append) (simp add: ext_calls_of_def)

lemma ext_calls_extCall: "ext_calls (extCall w c) = ext_calls w @ [c]"
  by (simp add: ext_calls_def trace_extCall ext_calls_of_append) (simp add: ext_calls_of_def)

lemma ext_calls_sendMessage: "ext_calls (fst (sendMessage w j c)) = ext_calls w"
  by (simp add: sendMessage_def ext_calls_sockCall)

lemma ext_calls_sendPresenceUpdate: "ext_calls (fst (sendPresenceUpdate w p j)) = ext_calls w"
  by (simp add: sendPresenceUpdate_def ext_calls_sockCall)

lemma ext_calls_sendEach: "ext_calls (fst (sendEach w j ds)) = ext_calls w"
proof (induction ds arbitrary: w)
  case Nil
  then show ?case by simp
next
  case (Cons d ds)
  then show ?case
    by (cases "thumbnailBuffer d")
       (simp_all add: split_beta ext_calls_sendMessage split: option.splits)
qed

lemma ext_calls_deliverVideoData: "ext_calls (fst (deliverVideoData w j n vd)) = ext_calls w"
  by (simp add: deliverVideoData_def split_beta ext_calls_sendMessage ext_calls_sendEach
        split: option.splits)

lemma ext_calls_sendChannelLatestVideos:
  "ext_calls (fst (sendChannelLatestVideos w e j vs title)) = ext_calls w"
  by (simp add: sendChannelLatestVideos_def split_beta ext_calls_sendMessage
        ext_calls_deliverVideoData split: option.splits)

lemma ext_calls_channelSelectionFailed:
  "ext_calls (fst (channelSelectionFailed w us j)) = ext_calls w"
  by (simp add: channelSelectionFailed_def split_beta ext_calls_sendMessage
        ext_calls_sendPresenceUpdate split: option.splits)

lemmas ext_calls_simps =
  ext_calls_sendMessage ext_calls_sendPresenceUpdate ext_calls_extCall
  ext_calls_sendChannelLatestVideos ext_calls_channelSelectionFailed

lemma handleChannelSelection_try_calls:
  "ext_calls (fst (handleChannelSelection_try w e us j channel vc)) = ext_calls w
   \<or> ext_calls (fst (handleChannelSelection_try w e us j channel vc))
       = ext_calls w @ [GetChannelLatestVideos (item_id channel) vc]"
  by (simp add: handleChannelSelection_try_def split_beta Let_def ext_calls_simps
        split: option.splits completion.splits fetch_result.splits)

lemma sendPresenceUpdate_quiet:
  assumes "quiet w"
  shows "\<exists>w' k. sendPresenceUpdate w p j = (w', Some k) \<and> quiet w'"
proof -
  have "set (tl (outcomes w)) \<subseteq> set (outcomes w)"
    by (cases "outcomes w") auto
  with assms show ?thesis
    by (auto simp: sendPresenceUpdate_def sockCall_def quiet_def split: list.splits bool.splits)
qed

lemma handleChannelSelection_try_quiet:
  assumes "quiet w"
  shows "ext_calls (fst (handleChannelSelection_try w e us j channel vc))
           = ext_calls w @ [GetChannelLatestVideos (item_id channel) vc]"
proof -
  from sendPresenceUpdate_quiet [OF assms] obtain w1 k1 where
    a: "sendPresenceUpdate w ''composing'' j = (w1, Some k1)" and q1: "quiet w1"
    by blast
  from sendMessage_quiet [OF q1] obtain w2 k2 where
    b: "sendMessage w1 j (Text (GettingLatest vc (item_title channel))) = (w2, Some k2)"
    by blast
  have e1: "ext_calls w1 = ext_calls w"
    using ext_calls_sendPresenceUpdate [of w "''composing''" j] a by simp
  have e2: "ext_calls w2 = ext_calls w1"
    using ext_calls_sendMessage [of w1 j "Text (GettingLatest vc (item_title channel))"] b by simp
  show ?thesis
    by (simp add: handleChannelSelection_try_def a b split_beta Let_def ext_calls_simps e1 e2
          split: option.splits completion.splits fetch_result.splits)
qed

lemma handleChannelSelection_calls:
  "ext_calls (fst (handleChannelSelection w e us j selection)) = ext_calls w
   \<or> (\<exists>cid. ext_calls (fst (handleChannelSelection w e us j selection))
         = ext_calls w @ [GetChannelLatestVideos cid (videoCountOf (split_ws (trim selection)))])"
proof -
  have t: "ext_calls (fst (handleChannelSelection_try w e us j channel vc)) = ext_calls w
   \<or> ext_calls (fst (handleChannelSelection_try w e us j channel vc))
       = ext_calls w @ [GetChannelLatestVideos (item_id channel) vc]" for channel vc
    by (rule handleChannelSelection_try_calls)
  show ?thesis
    unfolding handleChannelSelection_def Let_def split_beta
    using t
    by (auto simp: ext_calls_simps split: option.splits completion.splits)
qed

lemma handleChannelSelection_fetches:
  assumes "quiet w" and "us j = Some u" and "state u = channel_search_results"
    and "searchResults u = Some channels"
    and "parseInt (split_ws (trim selection) ! 0) = Some n" and "1 \<le> n" and "n \<le> int (length channels)"
  shows "ext_calls (fst (handleChannelSelection w e us j selection))
           = ext_calls w @ [GetChannelLatestVideos (item_id (channels ! nat (n - 1)))
                              (videoCountOf (split_ws (trim selection)))]"
  using assms handleChannelSelection_try_quiet [OF assms(1)]
  by (simp add: handleChannelSelection_def Let_def split_beta ext_calls_simps
        split: completion.splits)

text \<open>
  C10. A reply accepted in the state \<open>channel_search_results\<close> is a number, or two
  numbers separated by white space. For the first form the video count is 10; for the
  second it is the smaller of the second number and 20. Whenever the channel selection
  asks the channel API for the latest videos, in one call at most, it asks for that
  count; and it does ask, for the channel the first number names, when that number is
  within the cached channels and the transport does not throw.
\<close>

theorem channel_selection_video_count:
  "(re_channel_reply reply
      \<longrightarrow> (re_digits reply \<and> videoCountOf (split_ws (trim reply)) = Some 10)
          \<or> (\<exists>a ws b. reply = a @ ws @ b \<and> re_digits a \<and> ws \<noteq> [] \<and> list_all isSpace ws
                  \<and> re_digits b
                  \<and> videoCountOf (split_ws (trim reply)) = Some (min (int (decimalValue b)) 20)))
   \<and> (ext_calls (fst (handleChannelSelection w e us j reply)) = ext_calls w
      \<or> (\<exists>cid. ext_calls (fst (handleChannelSelection w e us j reply))
            = ext_calls w @ [GetChannelLatestVideos cid (videoCountOf (split_ws (trim reply)))]))
   \<and> (quiet w \<and> us j = Some u \<and> state u = channel_search_results
        \<and> searchResults u = Some channels
        \<and> parseInt (split_ws (trim reply) ! 0) = Some n \<and> 1 \<le> n \<and> n \<le> int (length channels)
      \<longrightarrow> ext_calls (fst (handleChannelSelection w e us j reply))
          = ext_calls w @ [GetChannelLatestVideos (item_id (channels ! nat (n - 1)))
                             (videoCountOf (split_ws (trim reply)))])
   \<and> (state u = channel_search_results
      \<longrightarrow> (route_of (Some u) reply = ChannelSelection) = re_channel_reply reply)"
proof (intro conjI impI)
  assume "re_channel_reply reply"
  from re_channel_reply_forms [OF this]
  show "(re_digits reply \<and> videoCountOf (split_ws (trim reply)) = Some 10)
          \<or> (\<exists>a ws b. reply = a @ ws @ b \<and> re_digits a \<and> ws \<noteq> [] \<and> list_all isSpace ws
                  \<and> re_digits b
                  \<and> videoCountOf (split_ws (trim reply)) = Some (min (int (decimalValue b)) 20))"
  proof
    assume "re_digits reply"
    then show ?thesis
      by (simp add: videoCount_default)
  next
    assume "\<exists>a ws b. reply = a @ ws @ b \<and> re_digits a \<and> ws \<noteq> [] \<and> list_all isSpace ws \<and> re_digits b"
    then obtain a ws b where "reply = a @ ws @ b" "re_digits a" "ws \<noteq> []" "list_all isSpace ws"
      "re_digits b"
      by blast
    moreover from this have "videoCountOf (split_ws (trim reply)) = Some (min (int (decimalValue b)) 20)"
      by (simp add: videoCount_capped)
    ultimately show ?thesis
      by blast
  qed
next
  show "ext_calls (fst (handleChannelSelection w e us j reply)) = ext_calls w
      \<or> (\<exists>cid. ext_calls (fst (handleChannelSelection w e us j reply))
            = ext_calls w @ [GetChannelLatestVideos cid (videoCountOf (split_ws (trim reply)))])"
    by (rule handleChannelSelection_calls)
next
  assume "quiet w \<and> us j = Some u \<and> state u = channel_search_results
        \<and> searchResults u = Some channels
        \<and> parseInt (split_ws (trim reply) ! 0) = Some n \<and> 1 \<le> n \<and> n \<le> int (length channels)"
  then show "ext_calls (fst (handleChannelSelection w e us j reply))
          = ext_calls w @ [GetChannelLatestVideos (item_id (channels ! nat (n - 1)))
                             (videoCountOf (split_ws (trim reply)))]"
    using handleChannelSelection_fetches by blast
next
  assume "state u = channel_search_results"
  then show "(route_of (Some u) reply = ChannelSelection) = re_channel_reply reply"
    by (simp add: route_of_def)
qed

theorem channel_selection_video_count_witness:
  "re_channel_reply ''2 35''
   \<and> videoCountOf (split_ws (trim ''2 35'')) = Some 20
   \<and> quiet fresh_world
   \<and> parseInt (split_ws (trim ''2 35'') ! 0) = Some 2
   \<and> route_of (three_channels ''chat'') ''2 35'' = ChannelSelection
   \<and> ext_calls (fst (handleChannelSelection fresh_world no_env three_channels ''chat'' ''2 35''))
       = [GetChannelLatestVideos (item_id (video_no 2)) (Some 20)]"
proof -
  let ?u = "\<lparr>state = channel_search_results,
             searchResults = Some [video_no 1, video_no 2, video_no 3],
             channelVideos = None, selectedChannel = None\<rparr>"
  have a: "re_channel_reply ''2 35''"
    by code_simp
  have b: "videoCountOf (split_ws (trim ''2 35'')) = Some 20"
    by code_simp
  have c: "quiet fresh_world"
    by (simp add: quiet_def fresh_world_def)
  have d: "parseInt (split_ws (trim ''2 35'') ! 0) = Some 2"
    by code_simp
  have f: "three_channels ''chat'' = Some ?u" "state ?u = channel_search_results"
    "searchResults ?u = Some [video_no 1, video_no 2, video_no 3]"
    by (simp_all add: three_channels_def)
  have g: "ext_calls fresh_world = []"
    by (simp add: ext_calls_def ext_calls_of_def fresh_world_def)
  show ?thesis
    using channel_selection_video_count [where reply = "''2 35''" and w = fresh_world
        and e = no_env and us = three_channels and j = "''chat''" and u = ?u
        and channels = "[video_no 1, video_no 2, video_no 3]" and n = 2]
      a b c d f g
    by simp
qed

end
